theory Spec2Isabelle
  imports Main "HOL-Library.AList"
begin

section \<open>The state file of tsctl (state.py)\<close>

text \<open>
  The state file is one JSON document,
  \<^verbatim>\<open>{workspace: ..., organizations: {org_id: {ruleset_id: {modified: ..., ruleIds: {rule_id: status}}}}}\<close>.
  Python dictionaries keep their insertion order and \<^verbatim>\<open>push\<close> iterates over them, so every
  dictionary is an association list: \<^verbatim>\<open>d[k] = v\<close> is \<open>AList.update\<close> (in place when the key is
  there, appended otherwise), \<^verbatim>\<open>d.pop(k)\<close> is \<open>AList.delete\<close>, \<^verbatim>\<open>k in d\<close> is
  \<open>map_of d k \<noteq> None\<close>. The two \<^verbatim>\<open>Literal\<close> types of the source are datatypes.
\<close>

datatype RulesetStatus = RsTrue | RsFalse | RsDel

datatype RuleStatus = Rule | Tags | Both | Del

record ruleset_entry =
  modified :: RulesetStatus
  ruleIds :: "(string \<times> RuleStatus) list"

type_synonym org_entry = "(string \<times> ruleset_entry) list"

record state_doc =
  workspace :: string
  organizations :: "(string \<times> org_entry) list"

text \<open>The exceptions of the Python code that the model distinguishes.\<close>

datatype error =
    ValueError | KeyError | AssertionError | TypeError | AttributeError
  | FileNotFoundError | FileExistsError | NotADirectoryError | IsADirectoryError
  | DirectoryNotEmpty | ShutilError | KeyboardInterrupt | URLError

text \<open>\<^verbatim>\<open>s.endswith(p)\<close>\<close>

definition endswith :: "string \<Rightarrow> string \<Rightarrow> bool" where
  "endswith s p = (length p \<le> length s \<and> drop (length s - length p) s = p)"

subsection \<open>The six primitives\<close>

text \<open>
  Every primitive starts with
  \<^verbatim>\<open>write_state = not state; if write_state: state = read_json(self.state_file)\<close>
  and ends with
  \<^verbatim>\<open>if write_state: write_json(self.state_file, state); return None  else: return state\<close>.
  A state document always has the key \<^verbatim>\<open>organizations\<close>, so it is never falsy and
  \<^verbatim>\<open>not state\<close> holds exactly for \<^verbatim>\<open>None\<close>. \<open>commit\<close> is that frame around the body of a
  primitive: it gives the outcome of the call (the exception raised, or the value returned) and
  the content of the state file afterwards. An exception in the body is raised before
  \<^verbatim>\<open>write_json\<close>, so it leaves the file as it was.
\<close>

definition commit ::
  "state_doc option \<Rightarrow> state_doc \<Rightarrow> (state_doc \<Rightarrow> error + state_doc)
    \<Rightarrow> (error + state_doc option) \<times> state_doc" where
  "commit state file body =
     (let write_state = (state = None);
          st = (case state of None \<Rightarrow> file | Some s \<Rightarrow> s)
      in case body st of
           Inl e \<Rightarrow> (Inl e, file)
         | Inr st' \<Rightarrow> if write_state then (Inr None, st') else (Inr (Some st'), file))"

text \<open>\<^verbatim>\<open>state['organizations'][org_id] = oe\<close>\<close>

definition set_org :: "string \<Rightarrow> org_entry \<Rightarrow> state_doc \<Rightarrow> state_doc" where
  "set_org org_id oe st = st\<lparr>organizations := AList.update org_id oe (organizations st)\<rparr>"

text \<open>\<^verbatim>\<open>state['organizations'].pop(org_id)\<close>\<close>

definition pop_org :: "string \<Rightarrow> state_doc \<Rightarrow> state_doc" where
  "pop_org org_id st = st\<lparr>organizations := AList.delete org_id (organizations st)\<rparr>"

definition state_add_organization_body :: "string \<Rightarrow> state_doc \<Rightarrow> state_doc" where
  "state_add_organization_body org_id st =
     (case map_of (organizations st) org_id of
        None \<Rightarrow> set_org org_id [] st
      | Some _ \<Rightarrow> st)"

definition state_add_organization ::
  "string \<Rightarrow> state_doc option \<Rightarrow> state_doc \<Rightarrow> (error + state_doc option) \<times> state_doc" where
  "state_add_organization org_id state file =
     commit state file (\<lambda>st. Inr (state_add_organization_body org_id st))"

text \<open>
  \<^verbatim>\<open>_state_delete_organization(org_id=None, state=None)\<close>: the argument \<^verbatim>\<open>org_id\<close> is used when
  it is truthy (neither \<^verbatim>\<open>None\<close> nor the empty string), the engine's own organization otherwise.
\<close>

definition state_delete_organization_body :: "string \<Rightarrow> string option \<Rightarrow> state_doc \<Rightarrow> state_doc" where
  "state_delete_organization_body self_org org_id st =
     (case org_id of
        Some oid \<Rightarrow>
          if oid \<noteq> [] then
            (if map_of (organizations st) oid \<noteq> None then pop_org oid st else st)
          else
            (if map_of (organizations st) self_org \<noteq> None then pop_org self_org st else st)
      | None \<Rightarrow>
          (if map_of (organizations st) self_org \<noteq> None then pop_org self_org st else st))"

definition state_delete_organization ::
  "string \<Rightarrow> string option \<Rightarrow> state_doc option \<Rightarrow> state_doc
    \<Rightarrow> (error + state_doc option) \<times> state_doc" where
  "state_delete_organization self_org org_id state file =
     commit state file (\<lambda>st. Inr (state_delete_organization_body self_org org_id st))"

definition state_add_ruleset_body ::
  "string \<Rightarrow> string \<Rightarrow> RulesetStatus \<Rightarrow> state_doc \<Rightarrow> error + state_doc" where
  "state_add_ruleset_body org_id ruleset_id action st =
     (case map_of (organizations st) org_id of
        Some oe \<Rightarrow>
          (case map_of oe ruleset_id of
             Some e \<Rightarrow>
               if action = RsTrue \<and> modified e = RsFalse then
                 Inr (set_org org_id (AList.update ruleset_id (e\<lparr>modified := RsTrue\<rparr>) oe) st)
               else if action \<noteq> RsDel \<and> modified e = RsDel then Inl ValueError
               else if action = RsFalse \<and> modified e = RsTrue then Inl ValueError
               else Inr st
           | None \<Rightarrow>
               Inr (set_org org_id
                     (AList.update ruleset_id \<lparr>modified = action, ruleIds = []\<rparr> oe) st))
      | None \<Rightarrow>
          (let st1 = state_add_organization_body org_id st
           in case map_of (organizations st1) org_id of
                None \<Rightarrow> Inl KeyError
              | Some oe \<Rightarrow>
                  Inr (set_org org_id
                        (AList.update ruleset_id \<lparr>modified = action, ruleIds = []\<rparr> oe) st1)))"

definition state_add_ruleset ::
  "string \<Rightarrow> string \<Rightarrow> RulesetStatus \<Rightarrow> state_doc option \<Rightarrow> state_doc
    \<Rightarrow> (error + state_doc option) \<times> state_doc" where
  "state_add_ruleset org_id ruleset_id action state file =
     commit state file (state_add_ruleset_body org_id ruleset_id action)"

text \<open>
  \<^verbatim>\<open>_state_delete_ruleset\<close>; its argument \<^verbatim>\<open>recursive\<close> is never read by the source and is left
  out.
\<close>

definition state_delete_ruleset_body ::
  "string \<Rightarrow> string \<Rightarrow> string \<Rightarrow> state_doc \<Rightarrow> error + state_doc" where
  "state_delete_ruleset_body org_id postfix ruleset_id st =
     (case map_of (organizations st) org_id of
        Some oe \<Rightarrow>
          (case map_of oe ruleset_id of
             Some e \<Rightarrow>
               if endswith ruleset_id postfix then
                 (let oe' = AList.delete ruleset_id oe
                  in if oe' = [] then Inr (pop_org org_id st)
                     else Inr (set_org org_id oe' st))
               else if modified e \<noteq> RsDel then
                 Inr (set_org org_id
                       (AList.update ruleset_id \<lparr>modified = RsDel, ruleIds = []\<rparr> oe) st)
               else if ruleIds e = [] then Inr st
               else Inl AssertionError
           | None \<Rightarrow>
               Inr (set_org org_id
                     (AList.update ruleset_id \<lparr>modified = RsDel, ruleIds = []\<rparr> oe) st))
      | None \<Rightarrow>
          Inr (set_org org_id [(ruleset_id, \<lparr>modified = RsDel, ruleIds = []\<rparr>)] st))"

definition state_delete_ruleset ::
  "string \<Rightarrow> string \<Rightarrow> string \<Rightarrow> state_doc option \<Rightarrow> state_doc
    \<Rightarrow> (error + state_doc option) \<times> state_doc" where
  "state_delete_ruleset org_id postfix ruleset_id state file =
     commit state file (state_delete_ruleset_body org_id postfix ruleset_id)"

text \<open>
  The branch of \<^verbatim>\<open>_state_add_rule\<close> in which the organization, the ruleset and the rule are
  tracked: the chain of \<^verbatim>\<open>if\<close>/\<^verbatim>\<open>elif\<close> on the endpoint and the current status, in the
  order of the source. No branch matching leaves the status as it is.
\<close>

definition add_rule_status :: "RuleStatus \<Rightarrow> RuleStatus \<Rightarrow> error + RuleStatus" where
  "add_rule_status endpoint cur =
     (if endpoint \<noteq> Del \<and> cur = Del then Inl ValueError
      else if endpoint = Tags \<and> cur = Both then Inr cur
      else if endpoint = Rule \<and> cur = Both then Inr cur
      else if endpoint = Both \<and> cur \<noteq> Both then Inr Both
      else if endpoint = Tags \<and> cur = Rule then Inr Both
      else if endpoint = Rule \<and> cur = Tags then Inr Both
      else Inr cur)"

text \<open>
  The part of \<^verbatim>\<open>_state_add_rule\<close> that runs once the organization and the ruleset are tracked
  (the source reaches it directly, or through its recursive call after having added them).
\<close>

definition state_add_rule_tracked ::
  "string \<Rightarrow> string \<Rightarrow> string \<Rightarrow> RuleStatus \<Rightarrow> org_entry \<Rightarrow> ruleset_entry \<Rightarrow> state_doc
    \<Rightarrow> error + state_doc" where
  "state_add_rule_tracked org_id ruleset_id rule_id endpoint oe e st =
     (case map_of (ruleIds e) rule_id of
        Some cur \<Rightarrow>
          (case add_rule_status endpoint cur of
             Inl err \<Rightarrow> Inl err
           | Inr new \<Rightarrow>
               Inr (set_org org_id
                     (AList.update ruleset_id
                        (e\<lparr>ruleIds := AList.update rule_id new (ruleIds e)\<rparr>) oe) st))
      | None \<Rightarrow>
          Inr (set_org org_id
                (AList.update ruleset_id
                   (e\<lparr>ruleIds := AList.update rule_id endpoint (ruleIds e)\<rparr>) oe) st))"

text \<open>
  \<^verbatim>\<open>_state_add_rule\<close> calls itself after adding what is missing; the depth of that recursion is
  at most two, counted by the first argument (2 is enough: one level for a missing ruleset, one
  for a missing organization). With no depth left the model raises, which the source cannot do.
\<close>

fun state_add_rule_rec ::
  "nat \<Rightarrow> string \<Rightarrow> string \<Rightarrow> string \<Rightarrow> RuleStatus \<Rightarrow> state_doc \<Rightarrow> error + state_doc" where
  "state_add_rule_rec n org_id ruleset_id rule_id endpoint st =
     (case map_of (organizations st) org_id of
        Some oe \<Rightarrow>
          (case map_of oe ruleset_id of
             Some e \<Rightarrow> state_add_rule_tracked org_id ruleset_id rule_id endpoint oe e st
           | None \<Rightarrow>
               (case state_add_ruleset_body org_id ruleset_id RsFalse st of
                  Inl err \<Rightarrow> Inl err
                | Inr st1 \<Rightarrow>
                    (case n of
                       0 \<Rightarrow> Inl AssertionError
                     | Suc m \<Rightarrow> state_add_rule_rec m org_id ruleset_id rule_id endpoint st1)))
      | None \<Rightarrow>
          (let st1 = state_add_organization_body org_id st
           in case state_add_ruleset_body org_id ruleset_id RsFalse st1 of
                Inl err \<Rightarrow> Inl err
              | Inr st2 \<Rightarrow>
                  (case n of
                     0 \<Rightarrow> Inl AssertionError
                   | Suc m \<Rightarrow> state_add_rule_rec m org_id ruleset_id rule_id endpoint st2)))"

definition state_add_rule_body ::
  "string \<Rightarrow> string \<Rightarrow> string \<Rightarrow> RuleStatus \<Rightarrow> state_doc \<Rightarrow> error + state_doc" where
  "state_add_rule_body = state_add_rule_rec 2"

definition state_add_rule ::
  "string \<Rightarrow> string \<Rightarrow> string \<Rightarrow> RuleStatus \<Rightarrow> state_doc option \<Rightarrow> state_doc
    \<Rightarrow> (error + state_doc option) \<times> state_doc" where
  "state_add_rule org_id ruleset_id rule_id endpoint state file =
     commit state file (state_add_rule_body org_id ruleset_id rule_id endpoint)"

definition state_delete_rule_body ::
  "string \<Rightarrow> string \<Rightarrow> string \<Rightarrow> string \<Rightarrow> state_doc \<Rightarrow> state_doc" where
  "state_delete_rule_body org_id postfix ruleset_id rule_id st =
     (case map_of (organizations st) org_id of
        Some oe \<Rightarrow>
          (case map_of oe ruleset_id of
             Some e \<Rightarrow>
               (case map_of (ruleIds e) rule_id of
                  Some cur \<Rightarrow>
                    if endswith rule_id postfix then
                      set_org org_id
                        (AList.update ruleset_id
                           (e\<lparr>ruleIds := AList.delete rule_id (ruleIds e)\<rparr>) oe) st
                    else if cur \<noteq> Del then
                      set_org org_id
                        (AList.update ruleset_id
                           (e\<lparr>ruleIds := AList.update rule_id Del (ruleIds e)\<rparr>) oe) st
                    else st
                | None \<Rightarrow>
                    set_org org_id
                      (AList.update ruleset_id
                         (e\<lparr>ruleIds := AList.update rule_id Del (ruleIds e)\<rparr>) oe) st)
           | None \<Rightarrow>
               set_org org_id
                 (AList.update ruleset_id \<lparr>modified = RsFalse, ruleIds = [(rule_id, Del)]\<rparr> oe) st)
      | None \<Rightarrow>
          set_org org_id [(ruleset_id, \<lparr>modified = RsFalse, ruleIds = [(rule_id, Del)]\<rparr>)] st)"

definition state_delete_rule ::
  "string \<Rightarrow> string \<Rightarrow> string \<Rightarrow> string \<Rightarrow> state_doc option \<Rightarrow> state_doc
    \<Rightarrow> (error + state_doc option) \<times> state_doc" where
  "state_delete_rule org_id postfix ruleset_id rule_id state file =
     commit state file (\<lambda>st. Inr (state_delete_rule_body org_id postfix ruleset_id rule_id st))"

subsection \<open>Reading the state document\<close>

definition tracked_ruleset :: "state_doc \<Rightarrow> string \<Rightarrow> string \<Rightarrow> ruleset_entry option" where
  "tracked_ruleset st org_id ruleset_id =
     (case map_of (organizations st) org_id of
        None \<Rightarrow> None
      | Some oe \<Rightarrow> map_of oe ruleset_id)"

definition tracked_rule :: "state_doc \<Rightarrow> string \<Rightarrow> string \<Rightarrow> string \<Rightarrow> RuleStatus option" where
  "tracked_rule st org_id ruleset_id rule_id =
     (case tracked_ruleset st org_id ruleset_id of
        None \<Rightarrow> None
      | Some e \<Rightarrow> map_of (ruleIds e) rule_id)"

text \<open>
  The join of the rule-status lattice as the specification words it: \<open>both\<close> is the join of
  \<open>rule\<close> and \<open>tags\<close>, \<open>del\<close> absorbs everything.
\<close>

definition status_join :: "RuleStatus \<Rightarrow> RuleStatus \<Rightarrow> RuleStatus" where
  "status_join a b = (if a = Del \<or> b = Del then Del else if a = b then a else Both)"

text \<open>
  The pruning invariant of the specification: no organization entry with an empty ruleset map,
  no ruleset entry with an empty rule map and nothing pending on the ruleset itself
  (\<open>modified = false\<close>).
\<close>

definition pruned :: "state_doc \<Rightarrow> bool" where
  "pruned st =
     (\<forall>(org_id, oe) \<in> set (organizations st).
        oe \<noteq> [] \<and> (\<forall>(ruleset_id, e) \<in> set oe. \<not> (ruleIds e = [] \<and> modified e = RsFalse)))"

text \<open>The condition of the invariant on the ruleset entries of one organization.\<close>

definition ok_entries :: "org_entry \<Rightarrow> bool" where
  "ok_entries oe = (\<forall>(ruleset_id, e) \<in> set oe. \<not> (ruleIds e = [] \<and> modified e = RsFalse))"

subsection \<open>Example documents\<close>

definition empty_doc :: state_doc where
  "empty_doc = \<lparr>workspace = [], organizations = []\<rparr>"


definition doc1 :: state_doc where
  "doc1 = \<lparr>workspace = ''org1'', organizations =
      [(''org1'', [(''rs1'', \<lparr>modified = RsFalse, ruleIds = [(''r1'', Tags), (''r2'', Del)]\<rparr>),
                   (''rs9'', \<lparr>modified = RsDel, ruleIds = []\<rparr>)])]\<rparr>"

text \<open>
  The state file after \<^verbatim>\<open>create_rule\<close> on a ruleset that exists remotely and was not tracked
  (\<^verbatim>\<open>_state_add_rule\<close> with endpoint \<open>both\<close>), and after \<^verbatim>\<open>delete_rule\<close> of that rule; the state
  file after \<^verbatim>\<open>create_ruleset\<close>.
\<close>

definition doc_rule_created :: state_doc where
  "doc_rule_created = \<lparr>workspace = [], organizations =
      [(''org1'', [(''rs1'', \<lparr>modified = RsFalse, ruleIds = [(''u1-localonly'', Both)]\<rparr>)])]\<rparr>"

definition doc_rule_deleted :: state_doc where
  "doc_rule_deleted = \<lparr>workspace = [], organizations =
      [(''org1'', [(''rs1'', \<lparr>modified = RsFalse, ruleIds = []\<rparr>)])]\<rparr>"

definition doc_ruleset_created :: state_doc where
  "doc_ruleset_created = \<lparr>workspace = [], organizations =
      [(''org1'', [(''x1-localonly'', \<lparr>modified = RsTrue, ruleIds = []\<rparr>)])]\<rparr>"

section \<open>The organization directory\<close>

text \<open>
  The JSON documents of the mirror. \<^verbatim>\<open>ruleset.json\<close> is read as a dictionary of which the code
  uses the keys \<^verbatim>\<open>name\<close> and \<^verbatim>\<open>ruleIds\<close>; \<^verbatim>\<open>rule.json\<close> is read as a dictionary of which
  the code uses \<^verbatim>\<open>name\<close>; the other fields are carried along unread, as is \<^verbatim>\<open>tags.json\<close>. \<open>StrJson\<close> is a
  document that is one JSON string, \<open>EmptyJson\<close> the empty dictionary, \<open>OtherJson\<close> any other
  document.
\<close>

record ruleset_data =
  rs_name :: string
  rs_ruleIds :: "string list"
  rs_rest :: string

record rule_data =
  r_name :: string
  r_rest :: string

datatype content =
    RulesetJson ruleset_data
  | RuleJson rule_data
  | TagsJson string
  | StrJson string
  | EmptyJson
  | OtherJson

text \<open>
  A directory is the list of its children in the order \<^verbatim>\<open>os.listdir\<close> gives them; a path is
  the list of its components below the organization directory
  \<^verbatim>\<open>self.organization_dir\<close>, which is the root of the tree. Identifiers are taken to be
  single path components.
\<close>

datatype node = File content | Dir "(string \<times> node) list"

fun node_at :: "node \<Rightarrow> string list \<Rightarrow> node option" where
  "node_at n [] = Some n"
| "node_at (File c) (k # ks) = None"
| "node_at (Dir kids) (k # ks) =
     (case map_of kids k of None \<Rightarrow> None | Some child \<Rightarrow> node_at child ks)"

text \<open>
  \<open>modify_at p f\<close> rewrites the entry of the last component of \<open>p\<close> in its parent directory:
  \<open>f\<close> sees the node there, if any, and gives the node to put there, if any. The parent has to
  exist and to be a directory.
\<close>

fun modify_at ::
  "string list \<Rightarrow> (node option \<Rightarrow> error + node option) \<Rightarrow> node \<Rightarrow> error + node" where
  "modify_at [] f n = Inl FileExistsError"
| "modify_at (k # ks) f (File c) = Inl NotADirectoryError"
| "modify_at [k] f (Dir kids) =
     (case f (map_of kids k) of
        Inl e \<Rightarrow> Inl e
      | Inr None \<Rightarrow> Inr (Dir (AList.delete k kids))
      | Inr (Some n) \<Rightarrow> Inr (Dir (AList.update k n kids)))"
| "modify_at (k # k' # ks) f (Dir kids) =
     (case map_of kids k of
        None \<Rightarrow> Inl FileNotFoundError
      | Some child \<Rightarrow>
          (case modify_at (k' # ks) f child of
             Inl e \<Rightarrow> Inl e
           | Inr child' \<Rightarrow> Inr (Dir (AList.update k child' kids))))"

text \<open>\<^verbatim>\<open>os.path.isdir\<close>, \<^verbatim>\<open>os.listdir\<close>, \<^verbatim>\<open>os.mkdir\<close>, \<^verbatim>\<open>os.rmdir\<close>, \<^verbatim>\<open>shutil.rmtree\<close>\<close>

definition isdir :: "node \<Rightarrow> string list \<Rightarrow> bool" where
  "isdir root p = (case node_at root p of Some (Dir kids) \<Rightarrow> True | _ \<Rightarrow> False)"

definition listdir :: "node \<Rightarrow> string list \<Rightarrow> error + string list" where
  "listdir root p =
     (case node_at root p of
        Some (Dir kids) \<Rightarrow> Inr (map fst kids)
      | Some (File c) \<Rightarrow> Inl NotADirectoryError
      | None \<Rightarrow> Inl FileNotFoundError)"

definition mkdir :: "string list \<Rightarrow> node \<Rightarrow> error + node" where
  "mkdir p root =
     modify_at p (\<lambda>old. case old of None \<Rightarrow> Inr (Some (Dir [])) | Some n \<Rightarrow> Inl FileExistsError) root"

definition rmdir :: "string list \<Rightarrow> node \<Rightarrow> error + node" where
  "rmdir p root =
     modify_at p
       (\<lambda>old. case old of
                 None \<Rightarrow> Inl FileNotFoundError
               | Some (File c) \<Rightarrow> Inl NotADirectoryError
               | Some (Dir kids) \<Rightarrow> if kids = [] then Inr None else Inl DirectoryNotEmpty) root"

definition rmtree :: "string list \<Rightarrow> node \<Rightarrow> error + node" where
  "rmtree p root =
     modify_at p
       (\<lambda>old. case old of
                 None \<Rightarrow> Inl FileNotFoundError
               | Some (File c) \<Rightarrow> Inl NotADirectoryError
               | Some (Dir kids) \<Rightarrow> Inr None) root"

text \<open>
  Modelled from the spec: \<^verbatim>\<open>read_json\<close> and \<^verbatim>\<open>write_json\<close> of \<^verbatim>\<open>tsctl/utils.py\<close>, which is
  not among the sources. Reads of a missing file fail explicitly; a write creates or replaces
  the file and does not create intermediate directories.
\<close>

definition read_json :: "node \<Rightarrow> string list \<Rightarrow> error + content" where
  "read_json root p =
     (case node_at root p of
        Some (File c) \<Rightarrow> Inr c
      | Some (Dir kids) \<Rightarrow> Inl IsADirectoryError
      | None \<Rightarrow> Inl FileNotFoundError)"

definition write_json :: "string list \<Rightarrow> content \<Rightarrow> node \<Rightarrow> error + node" where
  "write_json p c root =
     modify_at p
       (\<lambda>old. case old of
                 Some (Dir kids) \<Rightarrow> Inl IsADirectoryError
               | _ \<Rightarrow> Inr (Some (File c))) root"

text \<open>
  \<^verbatim>\<open>os.rename(src, dst)\<close> for a destination that does not exist, or that is a file replaced by
  a file: the node leaves its directory and enters the directory of \<open>dst\<close> under the last
  component of \<open>dst\<close>.
\<close>

definition rename :: "string list \<Rightarrow> string list \<Rightarrow> node \<Rightarrow> error + node" where
  "rename src dst root =
     (case node_at root src of
        None \<Rightarrow> Inl FileNotFoundError
      | Some n \<Rightarrow>
          (case modify_at src (\<lambda>old. Inr None) root of
             Inl e \<Rightarrow> Inl e
           | Inr root1 \<Rightarrow> modify_at dst (\<lambda>old. Inr (Some n)) root1))"

text \<open>
  \<^verbatim>\<open>shutil.move(src, dst)\<close>: when \<open>dst\<close> is an existing directory, the source is moved inside it
  under its own base name, unless source and destination are the same directory (then
  \<^verbatim>\<open>os.rename(src, dst)\<close> leaves everything in place) or that name is taken there
  (\<^verbatim>\<open>shutil.Error\<close>); otherwise the source is renamed to \<open>dst\<close>. A directory cannot replace a
  file.
\<close>

definition move :: "string list \<Rightarrow> string list \<Rightarrow> node \<Rightarrow> error + node" where
  "move src dst root =
     (case node_at root src of
        None \<Rightarrow> Inl FileNotFoundError
      | Some n \<Rightarrow>
          (case node_at root dst of
             Some (Dir kids) \<Rightarrow>
               if src = dst then Inr root
               else if src = [] then Inl ShutilError
               else if node_at root (dst @ [last src]) \<noteq> None then Inl ShutilError
               else rename src (dst @ [last src]) root
           | Some (File c) \<Rightarrow>
               (case n of
                  Dir kids \<Rightarrow> Inl NotADirectoryError
                | File c' \<Rightarrow> rename src dst root)
           | None \<Rightarrow> rename src dst root))"

section \<open>The remote platform\<close>

text \<open>
  The client \<^verbatim>\<open>tsctl/api.py\<close> is not among the sources; the engine treats it as a capability.
  A call either raises (\<^verbatim>\<open>URLError\<close>, or a \<^verbatim>\<open>KeyboardInterrupt\<close> while it waits) or returns a
  JSON value, of which the engine looks at the keys \<^verbatim>\<open>errors\<close>, \<^verbatim>\<open>id\<close>, \<^verbatim>\<open>rulesets\<close> and
  \<^verbatim>\<open>ruleIds\<close>. The remote is any deterministic function of the exchange so far and the call.
\<close>

record remote_ruleset =
  rr_id :: string
  rr_createdAt :: string
  rr_updatedAt :: string
  rr_data :: ruleset_data

record remote_rule =
  rl_id :: string
  rl_data :: rule_data

datatype call =
    GetRulesets
  | GetRulesetRules string
  | GetRuleTags string
  | PostRuleset content
  | PutRuleset string content
  | DeleteRuleset string
  | PostRule string content
  | PutRule string string content
  | DeleteRule string string
  | PostTags string content

datatype response =
    RaiseURLError
  | RaiseKeyboardInterrupt
  | RespNone
  | RespErrors
  | RespId string
  | RespRulesets "remote_ruleset list"
  | RespRules "remote_rule list"
  | RespTags string

type_synonym exchange = "(call \<times> response) list"

type_synonym api = "exchange \<Rightarrow> call \<Rightarrow> response"

text \<open>The world the engine acts on: the state file, the organization directory, the remote.\<close>

record world =
  state_file :: state_doc
  org_dir :: node
  api_log :: exchange

text \<open>
  The local variables of \<^verbatim>\<open>push\<close> and \<^verbatim>\<open>refresh\<close> together with what they act on:
  \<open>pending\<close> is the dictionary \<^verbatim>\<open>state['organizations'][self.org_id]\<close> held in memory.
\<close>

record run =
  pending :: org_entry
  disk :: node
  log :: exchange

definition request :: "api \<Rightarrow> call \<Rightarrow> run \<Rightarrow> response \<times> run" where
  "request remote c s = (remote (log s) c, s\<lparr>log := log s @ [(c, remote (log s) c)]\<rparr>)"


section \<open>push\<close>

text \<open>A \<^verbatim>\<open>for\<close> loop whose body may raise: the first exception ends the loop.\<close>

fun for_each :: "('a \<Rightarrow> 's \<Rightarrow> 'e + 's) \<Rightarrow> 'a list \<Rightarrow> 's \<Rightarrow> 'e + 's" where
  "for_each body [] s = Inr s"
| "for_each body (x # xs) s =
     (case body x s of Inl e \<Rightarrow> Inl e | Inr s' \<Rightarrow> for_each body xs s')"

text \<open>\<^verbatim>\<open>response['id']\<close> and \<^verbatim>\<open>'errors' in response\<close>\<close>

definition resp_id :: "response \<Rightarrow> error + string" where
  "resp_id r = (case r of RespId i \<Rightarrow> Inr i | RespNone \<Rightarrow> Inl TypeError | _ \<Rightarrow> Inl KeyError)"

text \<open>
  \<^verbatim>\<open>state['organizations'][self.org_id][ruleset_id]['ruleIds'][rule_id]\<close>, read, assigned and
  popped; a missing key raises \<^verbatim>\<open>KeyError\<close>.
\<close>

definition rule_status_of :: "org_entry \<Rightarrow> string \<Rightarrow> string \<Rightarrow> error + RuleStatus" where
  "rule_status_of oe ruleset_id rule_id =
     (case map_of oe ruleset_id of
        None \<Rightarrow> Inl KeyError
      | Some e \<Rightarrow> (case map_of (ruleIds e) rule_id of None \<Rightarrow> Inl KeyError | Some st \<Rightarrow> Inr st))"

definition set_rule_status ::
  "string \<Rightarrow> string \<Rightarrow> RuleStatus \<Rightarrow> org_entry \<Rightarrow> error + org_entry" where
  "set_rule_status ruleset_id rule_id st oe =
     (case map_of oe ruleset_id of
        None \<Rightarrow> Inl KeyError
      | Some e \<Rightarrow>
          Inr (AList.update ruleset_id (e\<lparr>ruleIds := AList.update rule_id st (ruleIds e)\<rparr>) oe))"

definition pop_rule :: "string \<Rightarrow> string \<Rightarrow> org_entry \<Rightarrow> error + org_entry" where
  "pop_rule ruleset_id rule_id oe =
     (case map_of oe ruleset_id of
        None \<Rightarrow> Inl KeyError
      | Some e \<Rightarrow>
          (case map_of (ruleIds e) rule_id of
             None \<Rightarrow> Inl KeyError
           | Some st \<Rightarrow>
               Inr (AList.update ruleset_id
                     (e\<lparr>ruleIds := AList.delete rule_id (ruleIds e)\<rparr>) oe)))"

text \<open>
  One turn of the loop over \<^verbatim>\<open>localonly_rules\<close> (the source has it twice, word for word, once
  posting to the new ruleset, once to the existing one; \<open>target\<close> is the ruleset posted to).
  \<open>ids\<close> is \<^verbatim>\<open>ruleset_data['ruleIds']\<close>. \<^verbatim>\<open>URLError\<close> from a call, and the one raised on a
  response with \<^verbatim>\<open>errors\<close>, are caught and the loop continues; everything else propagates.
\<close>

definition post_new_rule ::
  "api \<Rightarrow> string \<Rightarrow> string \<Rightarrow> string \<Rightarrow> string list \<times> run \<Rightarrow> error + string list \<times> run" where
  "post_new_rule remote ruleset_id target rule_id acc =
     (let ids = fst acc; s = snd acc
      in case read_json (disk s) [ruleset_id, rule_id, ''rule.json''] of
           Inl e \<Rightarrow> Inl e
         | Inr rule_data \<Rightarrow>
       (case read_json (disk s) [ruleset_id, rule_id, ''tags.json''] of
           Inl e \<Rightarrow> Inl e
         | Inr tags_data \<Rightarrow>
       (let r1 = fst (request remote (PostRule target rule_data) s);
            s1 = snd (request remote (PostRule target rule_data) s)
        in if r1 = RaiseKeyboardInterrupt then Inl KeyboardInterrupt
           else if r1 = RaiseURLError then Inr (ids, s1)
           else if r1 = RespNone then Inl TypeError
           else if r1 = RespErrors then Inr (ids, s1)
           else
             (case set_rule_status ruleset_id rule_id Tags (pending s1) of
                Inl e \<Rightarrow> Inl e
              | Inr p1 \<Rightarrow>
             (case resp_id r1 of
                Inl e \<Rightarrow> Inl e
              | Inr new_rule_id \<Rightarrow>
             (case move [ruleset_id, rule_id] [ruleset_id, new_rule_id] (disk s1) of
                Inl e \<Rightarrow> Inl e
              | Inr d1 \<Rightarrow>
             (let ids1 = ids @ [new_rule_id];
                  s2 = s1\<lparr>pending := p1, disk := d1\<rparr>;
                  r2 = fst (request remote (PostTags new_rule_id tags_data) s2);
                  s3 = snd (request remote (PostTags new_rule_id tags_data) s2)
              in if r2 = RaiseKeyboardInterrupt then Inl KeyboardInterrupt
                 else if r2 = RaiseURLError then Inr (ids1, s3)
                 else
                   (case rule_status_of (pending s3) ruleset_id rule_id of
                      Inl e \<Rightarrow> Inl e
                    | Inr st \<Rightarrow>
                        if st = Tags then
                          (case pop_rule ruleset_id rule_id (pending s3) of
                             Inl e \<Rightarrow> Inl e
                           | Inr p3 \<Rightarrow> Inr (ids1, s3\<lparr>pending := p3\<rparr>))
                        else
                          (case set_rule_status ruleset_id rule_id Rule (pending s3) of
                             Inl e \<Rightarrow> Inl e
                           | Inr p3 \<Rightarrow> Inr (ids1, s3\<lparr>pending := p3\<rparr>))))))))))"

text \<open>
  One turn of the loop over the rules tracked in the state file (``rules that exist in the
  platform, but need to be modified''), dispatching on the status.
\<close>

definition put_or_post ::
  "api \<Rightarrow> call \<Rightarrow> run \<Rightarrow> (run \<Rightarrow> error + run) \<Rightarrow> error + run" where
  "put_or_post remote c s on_success =
     (let r = fst (request remote c s); s1 = snd (request remote c s)
      in if r = RaiseKeyboardInterrupt then Inl KeyboardInterrupt
         else if r = RaiseURLError then Inr s1
         else on_success s1)"

definition drop_rule :: "string \<Rightarrow> string \<Rightarrow> run \<Rightarrow> error + run" where
  "drop_rule ruleset_id rule_id s =
     (case pop_rule ruleset_id rule_id (pending s) of
        Inl e \<Rightarrow> Inl e
      | Inr p \<Rightarrow> Inr (s\<lparr>pending := p\<rparr>))"

definition push_tracked_rule :: "api \<Rightarrow> string \<Rightarrow> string \<Rightarrow> run \<Rightarrow> error + run" where
  "push_tracked_rule remote ruleset_id rule_id s =
     (case rule_status_of (pending s) ruleset_id rule_id of
        Inl e \<Rightarrow> Inl e
      | Inr Rule \<Rightarrow>
          (case read_json (disk s) [ruleset_id, rule_id, ''rule.json''] of
             Inl e \<Rightarrow> Inl e
           | Inr rule_data \<Rightarrow>
               put_or_post remote (PutRule ruleset_id rule_id rule_data) s
                 (drop_rule ruleset_id rule_id))
      | Inr Tags \<Rightarrow>
          (case read_json (disk s) [ruleset_id, rule_id, ''tags.json''] of
             Inl e \<Rightarrow> Inl e
           | Inr tags_data \<Rightarrow>
               put_or_post remote (PostTags rule_id tags_data) s (drop_rule ruleset_id rule_id))
      | Inr Both \<Rightarrow>
          (case read_json (disk s) [ruleset_id, rule_id, ''rule.json''] of
             Inl e \<Rightarrow> Inl e
           | Inr rule_data \<Rightarrow>
               put_or_post remote (PutRule ruleset_id rule_id rule_data) s
                 (\<lambda>s1. case set_rule_status ruleset_id rule_id Tags (pending s1) of
                          Inl e \<Rightarrow> Inl e
                        | Inr p1 \<Rightarrow>
                            (case read_json (disk s1) [ruleset_id, rule_id, ''tags.json''] of
                               Inl e \<Rightarrow> Inl e
                             | Inr tags_data \<Rightarrow>
                                 put_or_post remote (PostTags rule_id tags_data)
                                   (s1\<lparr>pending := p1\<rparr>) (drop_rule ruleset_id rule_id))))
      | Inr Del \<Rightarrow>
          put_or_post remote (DeleteRule ruleset_id rule_id) s (drop_rule ruleset_id rule_id))"

text \<open>\<^verbatim>\<open>ruleset_data['ruleIds']\<close> of what \<^verbatim>\<open>read_json\<close> gave for \<^verbatim>\<open>ruleset.json\<close>.\<close>

definition as_ruleset :: "content \<Rightarrow> error + ruleset_data" where
  "as_ruleset c = (case c of RulesetJson d \<Rightarrow> Inr d | _ \<Rightarrow> Inl KeyError)"

text \<open>The branch of \<^verbatim>\<open>push\<close> for a ruleset whose identifier ends with the postfix.\<close>

definition push_localonly_ruleset ::
  "api \<Rightarrow> string \<Rightarrow> ruleset_data \<Rightarrow> run \<Rightarrow> error + run" where
  "push_localonly_ruleset remote ruleset_id ruleset_data s =
     (let localonly_rules = rs_ruleIds ruleset_data;
          data0 = ruleset_data\<lparr>rs_ruleIds := []\<rparr>;
          r = fst (request remote (PostRuleset (RulesetJson data0)) s);
          s1 = snd (request remote (PostRuleset (RulesetJson data0)) s)
      in if r = RaiseKeyboardInterrupt then Inl KeyboardInterrupt
         else if r = RaiseURLError then Inr s1
         else
           (case resp_id r of
              Inl e \<Rightarrow> Inl e
            | Inr new_ruleset_id \<Rightarrow>
           (case for_each (\<lambda>rule_id. post_new_rule remote ruleset_id new_ruleset_id rule_id)
                   localonly_rules ([], s1) of
              Inl e \<Rightarrow> Inl e
            | Inr acc \<Rightarrow>
           (case move [ruleset_id] [new_ruleset_id] (disk (snd acc)) of
              Inl e \<Rightarrow> Inl e
            | Inr d1 \<Rightarrow>
           (case write_json [new_ruleset_id, ''ruleset.json'']
                   (RulesetJson (data0\<lparr>rs_ruleIds := fst acc\<rparr>)) d1 of
              Inl e \<Rightarrow> Inl e
            | Inr d2 \<Rightarrow>
           (case map_of (pending (snd acc)) ruleset_id of
              None \<Rightarrow> Inl KeyError
            | Some e \<Rightarrow>
                if ruleIds e = [] then
                  Inr ((snd acc)\<lparr>pending := AList.delete ruleset_id (pending (snd acc)),
                                 disk := d2\<rparr>)
                else
                  Inr ((snd acc)\<lparr>pending :=
                                   AList.delete ruleset_id
                                     (AList.update new_ruleset_id e (pending (snd acc))),
                                 disk := d2\<rparr>)))))))"

text \<open>The branch of \<^verbatim>\<open>push\<close> for a ruleset that exists remotely.\<close>

definition push_existing_ruleset ::
  "api \<Rightarrow> string \<Rightarrow> string \<Rightarrow> ruleset_data \<Rightarrow> run \<Rightarrow> error + run" where
  "push_existing_ruleset remote postfix ruleset_id ruleset_data s =
     (let localonly_rules = filter (\<lambda>rule_id. endswith rule_id postfix) (rs_ruleIds ruleset_data);
          data0 = ruleset_data
                    \<lparr>rs_ruleIds := filter (\<lambda>rule_id. \<not> endswith rule_id postfix)
                                     (rs_ruleIds ruleset_data)\<rparr>
      in case map_of (pending s) ruleset_id of
           None \<Rightarrow> Inl KeyError
         | Some e \<Rightarrow>
       (case (if modified e = RsTrue then
                put_or_post remote (PutRuleset ruleset_id (RulesetJson data0)) s
                  (\<lambda>s1. Inr (s1\<lparr>pending :=
                                   AList.update ruleset_id (e\<lparr>modified := RsFalse\<rparr>) (pending s1)\<rparr>))
              else Inr s) of
           Inl err \<Rightarrow> Inl err
         | Inr s2 \<Rightarrow>
       (case for_each (\<lambda>rule_id. post_new_rule remote ruleset_id ruleset_id rule_id)
               localonly_rules (rs_ruleIds data0, s2) of
           Inl err \<Rightarrow> Inl err
         | Inr acc \<Rightarrow>
       (case write_json [ruleset_id, ''ruleset.json'']
               (RulesetJson (data0\<lparr>rs_ruleIds := fst acc\<rparr>)) (disk (snd acc)) of
           Inl err \<Rightarrow> Inl err
         | Inr d3 \<Rightarrow>
       (case map_of (pending (snd acc)) ruleset_id of
           None \<Rightarrow> Inl KeyError
         | Some e3 \<Rightarrow>
       (case for_each (push_tracked_rule remote ruleset_id) (map fst (ruleIds e3))
               ((snd acc)\<lparr>disk := d3\<rparr>) of
           Inl err \<Rightarrow> Inl err
         | Inr s4 \<Rightarrow>
       (case map_of (pending s4) ruleset_id of
           None \<Rightarrow> Inl KeyError
         | Some e4 \<Rightarrow>
             if modified e4 = RsFalse \<and> ruleIds e4 = [] then
               Inr (s4\<lparr>pending := AList.delete ruleset_id (pending s4)\<rparr>)
             else Inr s4)))))))"

text \<open>The body of the loop over the rulesets tracked for the organization.\<close>

definition push_ruleset :: "api \<Rightarrow> string \<Rightarrow> string \<Rightarrow> run \<Rightarrow> error + run" where
  "push_ruleset remote postfix ruleset_id s =
     (case map_of (pending s) ruleset_id of
        None \<Rightarrow> Inl KeyError
      | Some e \<Rightarrow>
          if modified e = RsDel then
            put_or_post remote (DeleteRuleset ruleset_id) s
              (\<lambda>s1. Inr (s1\<lparr>pending := AList.delete ruleset_id (pending s1)\<rparr>))
          else
            (case read_json (disk s) [ruleset_id, ''ruleset.json''] of
               Inl err \<Rightarrow> Inl err
             | Inr c \<Rightarrow>
                 (case as_ruleset c of
                    Inl err \<Rightarrow> Inl err
                  | Inr ruleset_data \<Rightarrow>
                      if endswith ruleset_id postfix then
                        push_localonly_ruleset remote ruleset_id ruleset_data s
                      else push_existing_ruleset remote postfix ruleset_id ruleset_data s)))"

text \<open>
  \<^verbatim>\<open>State.push\<close>. The loop runs over the keys the organization had when it started
  (\<^verbatim>\<open>list(state['organizations'][self.org_id])\<close>); its \<^verbatim>\<open>else\<close> clause runs on every completion,
  as there is no \<^verbatim>\<open>break\<close>, and writes the state file once. An exception that \<^verbatim>\<open>push\<close> does
  not catch ends it before that write.
\<close>

definition push :: "api \<Rightarrow> string \<Rightarrow> string \<Rightarrow> world \<Rightarrow> error + world" where
  "push remote org_id postfix w =
     (let state = state_file w
      in case map_of (organizations state) org_id of
           None \<Rightarrow> Inr w
         | Some oe \<Rightarrow>
             (case for_each (push_ruleset remote postfix) (map fst oe)
                     \<lparr>pending = oe, disk = org_dir w, log = api_log w\<rparr> of
                Inl e \<Rightarrow> Inl e
              | Inr s \<Rightarrow>
                  Inr \<lparr>state_file =
                         (if pending s = [] then pop_org org_id state
                          else set_org org_id (pending s) state),
                       org_dir = disk s, api_log = log s\<rparr>))"


section \<open>refresh\<close>

text \<open>
  The first part of \<^verbatim>\<open>State.refresh\<close>, up to the creation of the client: leftovers of an earlier
  run are cleared (\<^verbatim>\<open>.remote/\<close> deleted, the children of \<^verbatim>\<open>.backup/\<close> moved back into the
  organization directory), the two staging directories are created, and every other child of the
  organization directory is moved into \<^verbatim>\<open>.backup/\<close>.
\<close>

definition refresh_prepare :: "node \<Rightarrow> error + node" where
  "refresh_prepare d0 =
     (case (if isdir d0 [''.remote''] then rmtree [''.remote''] d0 else Inr d0) of
        Inl e \<Rightarrow> Inl e
      | Inr d1 \<Rightarrow>
     (case (if isdir d1 [''.backup''] then
              (case listdir d1 [''.backup''] of
                 Inl e \<Rightarrow> Inl e
               | Inr names \<Rightarrow>
                   (case for_each (\<lambda>ruleset. move [''.backup'', ruleset] []) names d1 of
                      Inl e \<Rightarrow> Inl e
                    | Inr d \<Rightarrow> rmdir [''.backup''] d))
            else Inr d1) of
        Inl e \<Rightarrow> Inl e
      | Inr d2 \<Rightarrow>
     (case mkdir [''.backup''] d2 of
        Inl e \<Rightarrow> Inl e
      | Inr d3 \<Rightarrow>
     (case mkdir [''.remote''] d3 of
        Inl e \<Rightarrow> Inl e
      | Inr d4 \<Rightarrow>
     (case listdir d4 [] of
        Inl e \<Rightarrow> Inl e
      | Inr names \<Rightarrow>
          for_each
            (\<lambda>ruleset. if ruleset \<noteq> ''.backup'' \<and> ruleset \<noteq> ''.remote''
                        then move [ruleset] [''.backup'', ruleset] else Inr)
            names d4)))))"

text \<open>
  The body of the \<^verbatim>\<open>try\<close> statement. It ends in one of three ways: an exception (with the
  directory and the exchange as they are then), one of the two \<^verbatim>\<open>return None\<close> statements,
  or its last statement.
\<close>

datatype fetch_result =
    Raised error node exchange
  | Returned node exchange
  | Fetched node exchange

definition tags_content :: "response \<Rightarrow> content" where
  "tags_content r = (case r of RespTags t \<Rightarrow> TagsJson t | _ \<Rightarrow> OtherJson)"

definition fetch_rule ::
  "api \<Rightarrow> string \<Rightarrow> remote_rule \<Rightarrow> node \<times> exchange
    \<Rightarrow> (error \<times> node \<times> exchange) + node \<times> exchange" where
  "fetch_rule remote ruleset_id rule acc =
     (let d = fst acc; lg = snd acc;
          rule_id = rl_id rule;
          r = remote lg (GetRuleTags rule_id);
          lg1 = lg @ [(GetRuleTags rule_id, r)]
      in if r = RaiseURLError then Inl (URLError, d, lg1)
         else if r = RaiseKeyboardInterrupt then Inl (KeyboardInterrupt, d, lg1)
         else
           (case mkdir [''.remote'', ruleset_id, rule_id] d of
              Inl e \<Rightarrow> Inl (e, d, lg1)
            | Inr d1 \<Rightarrow>
           (case write_json [''.remote'', ruleset_id, rule_id, ''rule.json'']
                   (RuleJson (rl_data rule)) d1 of
              Inl e \<Rightarrow> Inl (e, d1, lg1)
            | Inr d2 \<Rightarrow>
           (case write_json [''.remote'', ruleset_id, rule_id, ''tags.json'']
                   (tags_content r) d2 of
              Inl e \<Rightarrow> Inl (e, d2, lg1)
            | Inr d3 \<Rightarrow> Inr (d3, lg1)))))"

text \<open>
  The fields \<^verbatim>\<open>id\<close>, \<^verbatim>\<open>createdAt\<close> and \<^verbatim>\<open>updatedAt\<close> are popped from the ruleset, what is left
  (\<open>rr_data\<close>) is written to \<^verbatim>\<open>ruleset.json\<close>.
\<close>

definition fetch_ruleset ::
  "api \<Rightarrow> remote_ruleset \<Rightarrow> node \<times> exchange
    \<Rightarrow> (error \<times> node \<times> exchange) + node \<times> exchange" where
  "fetch_ruleset remote ruleset acc =
     (let d = fst acc; lg = snd acc;
          ruleset_id = rr_id ruleset;
          r = remote lg (GetRulesetRules ruleset_id);
          lg1 = lg @ [(GetRulesetRules ruleset_id, r)]
      in if r = RaiseURLError then Inl (URLError, d, lg1)
         else if r = RaiseKeyboardInterrupt then Inl (KeyboardInterrupt, d, lg1)
         else
           (case mkdir [''.remote'', ruleset_id] d of
              Inl e \<Rightarrow> Inl (e, d, lg1)
            | Inr d1 \<Rightarrow>
           (case write_json [''.remote'', ruleset_id, ''ruleset.json'']
                   (RulesetJson (rr_data ruleset)) d1 of
              Inl e \<Rightarrow> Inl (e, d1, lg1)
            | Inr d2 \<Rightarrow>
                (case r of
                   RespRules rules \<Rightarrow> for_each (fetch_rule remote ruleset_id) rules (d2, lg1)
                 | RespNone \<Rightarrow> Inl (TypeError, d2, lg1)
                 | _ \<Rightarrow> Inl (KeyError, d2, lg1)))))"

definition fetch :: "api \<Rightarrow> node \<Rightarrow> exchange \<Rightarrow> fetch_result" where
  "fetch remote d lg =
     (let r = remote lg GetRulesets;
          lg1 = lg @ [(GetRulesets, r)]
      in case r of
           RaiseURLError \<Rightarrow> Raised URLError d lg1
         | RaiseKeyboardInterrupt \<Rightarrow> Raised KeyboardInterrupt d lg1
         | RespNone \<Rightarrow> Returned d lg1
         | RespErrors \<Rightarrow> Returned d lg1
         | RespRulesets rulesets \<Rightarrow>
             (case for_each (fetch_ruleset remote) rulesets (d, lg1) of
                Inl x \<Rightarrow> Raised (fst x) (fst (snd x)) (snd (snd x))
              | Inr acc \<Rightarrow> Fetched (fst acc) (snd acc))
         | _ \<Rightarrow> Raised KeyError d lg1)"

text \<open>The \<^verbatim>\<open>except (URLError, KeyboardInterrupt)\<close> clause.\<close>

definition refresh_restore :: "node \<Rightarrow> error + node" where
  "refresh_restore d =
     (case rmtree [''.remote''] d of
        Inl e \<Rightarrow> Inl e
      | Inr d1 \<Rightarrow>
     (case listdir d1 [''.backup''] of
        Inl e \<Rightarrow> Inl e
      | Inr names \<Rightarrow>
     (case for_each (\<lambda>ruleset. move [''.backup'', ruleset] [ruleset]) names d1 of
        Inl e \<Rightarrow> Inl e
      | Inr d2 \<Rightarrow> rmdir [''.backup''] d2)))"

text \<open>The \<^verbatim>\<open>else\<close> clause of the \<^verbatim>\<open>try\<close> statement, up to the update of the state file.\<close>

definition refresh_install :: "node \<Rightarrow> error + node" where
  "refresh_install d =
     (case listdir d [''.remote''] of
        Inl e \<Rightarrow> Inl e
      | Inr names \<Rightarrow>
     (case for_each (\<lambda>ruleset. move [''.remote'', ruleset] [ruleset]) names d of
        Inl e \<Rightarrow> Inl e
      | Inr d1 \<Rightarrow>
     (case rmtree [''.backup''] d1 of
        Inl e \<Rightarrow> Inl e
      | Inr d2 \<Rightarrow> rmtree [''.remote''] d2)))"

text \<open>
  \<^verbatim>\<open>State.refresh\<close>. An exception other than the two that are caught leaves \<^verbatim>\<open>refresh\<close>; after
  the \<^verbatim>\<open>except\<close> clause the method returns normally.
\<close>

definition refresh :: "api \<Rightarrow> string \<Rightarrow> world \<Rightarrow> error + world" where
  "refresh remote org_id w =
     (case refresh_prepare (org_dir w) of
        Inl e \<Rightarrow> Inl e
      | Inr d \<Rightarrow>
          (case fetch remote d (api_log w) of
             Raised e d1 lg \<Rightarrow>
               if e = URLError \<or> e = KeyboardInterrupt then
                 (case refresh_restore d1 of
                    Inl e' \<Rightarrow> Inl e'
                  | Inr d2 \<Rightarrow> Inr (w\<lparr>org_dir := d2, api_log := lg\<rparr>))
               else Inl e
           | Returned d1 lg \<Rightarrow> Inr (w\<lparr>org_dir := d1, api_log := lg\<rparr>)
           | Fetched d1 lg \<Rightarrow>
               (case refresh_install d1 of
                  Inl e \<Rightarrow> Inl e
                | Inr d2 \<Rightarrow>
                    (case state_delete_organization org_id (Some org_id) None (state_file w) of
                       (Inl e, file) \<Rightarrow> Inl e
                     | (Inr v, file) \<Rightarrow>
                         Inr \<lparr>state_file = file, org_dir = d2, api_log = lg\<rparr>))))"


section \<open>Engine operations and the decorator \<^verbatim>\<open>lazy\<close>\<close>

text \<open>
  The values a caller can pass for \<^verbatim>\<open>ruleset_data\<close>, \<^verbatim>\<open>rule_data\<close> and \<^verbatim>\<open>tags_data\<close>
  (annotated \<^verbatim>\<open>Union[str, Dict]\<close>, the last one optional): a string, a dictionary, \<^verbatim>\<open>None\<close>;
  \<open>PyStrClass\<close> is the class object \<^verbatim>\<open>str\<close> itself, the only value \<^verbatim>\<open>v\<close> for which
  \<^verbatim>\<open>v is str\<close> holds.
\<close>

datatype pyval = PyStr string | PyJson content | PyNone | PyStrClass

definition is_str :: "pyval \<Rightarrow> bool" where
  "is_str v = (v = PyStrClass)"

text \<open>
  \<^verbatim>\<open>read_json(path)\<close> on a path given by the caller: \<open>ext\<close> is the content of the files outside
  the organization directory. Anything but a string is no path.
\<close>

definition read_json_arg :: "(string \<Rightarrow> error + pyval) \<Rightarrow> pyval \<Rightarrow> error + pyval" where
  "read_json_arg ext v = (case v of PyStr path \<Rightarrow> ext path | _ \<Rightarrow> Inl TypeError)"

text \<open>\<^verbatim>\<open>data['name']\<close> and \<^verbatim>\<open>data['name'] += postfix\<close>\<close>

definition content_name :: "content \<Rightarrow> error + string" where
  "content_name c =
     (case c of
        RulesetJson d \<Rightarrow> Inr (rs_name d)
      | RuleJson d \<Rightarrow> Inr (r_name d)
      | StrJson s \<Rightarrow> Inl TypeError
      | _ \<Rightarrow> Inl KeyError)"

definition data_name :: "pyval \<Rightarrow> error + string" where
  "data_name v = (case v of PyJson c \<Rightarrow> content_name c | _ \<Rightarrow> Inl TypeError)"

definition append_name :: "string \<Rightarrow> content \<Rightarrow> content" where
  "append_name p c =
     (case c of
        RulesetJson d \<Rightarrow> RulesetJson (d\<lparr>rs_name := rs_name d @ p\<rparr>)
      | RuleJson d \<Rightarrow> RuleJson (d\<lparr>r_name := r_name d @ p\<rparr>)
      | _ \<Rightarrow> c)"

text \<open>\<^verbatim>\<open>name_postfix\<close> when it is truthy, \<^verbatim>\<open>' - COPY'\<close> otherwise.\<close>

definition effective_postfix :: "string option \<Rightarrow> string" where
  "effective_postfix name_postfix =
     (case name_postfix of
        None \<Rightarrow> '' - COPY''
      | Some p \<Rightarrow> if p = [] then '' - COPY'' else p)"

text \<open>\<^verbatim>\<open>ruleset_name_occurs\<close>\<close>

fun ruleset_name_scan :: "node \<Rightarrow> string \<Rightarrow> string list \<Rightarrow> error + bool" where
  "ruleset_name_scan d nm [] = Inr False"
| "ruleset_name_scan d nm (ruleset # rest) =
     (case read_json d [ruleset, ''ruleset.json''] of
        Inl e \<Rightarrow> Inl e
      | Inr c \<Rightarrow>
          (case content_name c of
             Inl e \<Rightarrow> Inl e
           | Inr n \<Rightarrow> if nm = n then Inr True else ruleset_name_scan d nm rest))"

definition ruleset_name_occurs :: "node \<Rightarrow> string \<Rightarrow> error + bool" where
  "ruleset_name_occurs d nm =
     (case listdir d [] of Inl e \<Rightarrow> Inl e | Inr names \<Rightarrow> ruleset_name_scan d nm names)"

text \<open>\<^verbatim>\<open>rule_name_occurs\<close>; \<^verbatim>\<open>'ruleset.json' in rule\<close> is a substring test.\<close>

fun contains :: "string \<Rightarrow> string \<Rightarrow> bool" where
  "contains sub [] = (sub = [])"
| "contains sub (c # cs) = (take (length sub) (c # cs) = sub \<or> contains sub cs)"

fun rule_name_scan :: "node \<Rightarrow> string \<Rightarrow> string \<Rightarrow> string list \<Rightarrow> error + bool" where
  "rule_name_scan d nm ruleset [] = Inr False"
| "rule_name_scan d nm ruleset (rule # rest) =
     (if contains ''ruleset.json'' rule then rule_name_scan d nm ruleset rest
      else
        (case read_json d [ruleset, rule, ''rule.json''] of
           Inl e \<Rightarrow> Inl e
         | Inr c \<Rightarrow>
             (case content_name c of
                Inl e \<Rightarrow> Inl e
              | Inr n \<Rightarrow> if nm = n then Inr True else rule_name_scan d nm ruleset rest)))"

fun rule_name_scan_all :: "node \<Rightarrow> string \<Rightarrow> string list \<Rightarrow> error + bool" where
  "rule_name_scan_all d nm [] = Inr False"
| "rule_name_scan_all d nm (ruleset # rest) =
     (case listdir d [ruleset] of
        Inl e \<Rightarrow> Inl e
      | Inr rules \<Rightarrow>
          (case rule_name_scan d nm ruleset rules of
             Inl e \<Rightarrow> Inl e
           | Inr found \<Rightarrow> if found then Inr True else rule_name_scan_all d nm rest))"

definition rule_name_occurs :: "node \<Rightarrow> string \<Rightarrow> error + bool" where
  "rule_name_occurs d nm =
     (case listdir d [] of Inl e \<Rightarrow> Inl e | Inr names \<Rightarrow> rule_name_scan_all d nm names)"

text \<open>
  The loop \<^verbatim>\<open>while self.ruleset_name_occurs(data['name']): data['name'] += ...\<close> (and the same
  loop on rule names, \<open>occurs\<close> being the probe).
\<close>

partial_function (option) uniquify ::
  "(string \<Rightarrow> error + bool) \<Rightarrow> string \<Rightarrow> pyval \<Rightarrow> (error + content) option" where
  "uniquify occurs p data =
     (case data_name data of
        Inl e \<Rightarrow> Some (Inl e)
      | Inr nm \<Rightarrow>
          (case occurs nm of
             Inl e \<Rightarrow> Some (Inl e)
           | Inr found \<Rightarrow>
               (case data of
                  PyJson c \<Rightarrow>
                    if found then uniquify occurs p (PyJson (append_name p c)) else Some (Inr c)
                | _ \<Rightarrow> Some (Inl TypeError))))"

declare uniquify.simps [code]

text \<open>
  The loop that draws identifiers \<^verbatim>\<open>str(uuid4()) + self._postfix\<close> until one is not in the
  listing; \<open>uuid4\<close> is the sequence of the draws, \<open>n\<close> the number of draws so far.
\<close>

partial_function (option) fresh_id ::
  "(nat \<Rightarrow> string) \<Rightarrow> string \<Rightarrow> string list \<Rightarrow> nat \<Rightarrow> (string \<times> nat) option" where
  "fresh_id uuid4 postfix names n =
     (if uuid4 n @ postfix \<notin> set names then Some (uuid4 n @ postfix, Suc n)
      else fresh_id uuid4 postfix names (Suc n))"

declare fresh_id.simps [code]

text \<open>What a decorated operation returns: \<^verbatim>\<open>None\<close>, an identifier, or the engine \<^verbatim>\<open>self\<close>.\<close>

datatype retval = RetNone | RetStr string | RetSelf

record process =
  wld :: world
  uuid_count :: nat

text \<open>\<^verbatim>\<open>_create_ruleset\<close>\<close>

definition create_ruleset_local ::
  "(nat \<Rightarrow> string) \<Rightarrow> string \<Rightarrow> string \<Rightarrow> content \<Rightarrow> process
    \<Rightarrow> (error + string \<times> process) option" where
  "create_ruleset_local uuid4 org_id postfix ruleset_data ps =
     (case listdir (org_dir (wld ps)) [] of
        Inl e \<Rightarrow> Some (Inl e)
      | Inr names \<Rightarrow>
     (case fresh_id uuid4 postfix names (uuid_count ps) of
        None \<Rightarrow> None
      | Some g \<Rightarrow>
     (case mkdir [fst g] (org_dir (wld ps)) of
        Inl e \<Rightarrow> Some (Inl e)
      | Inr d1 \<Rightarrow>
     (case write_json [fst g, ''ruleset.json''] ruleset_data d1 of
        Inl e \<Rightarrow> Some (Inl e)
      | Inr d2 \<Rightarrow>
     (case state_add_ruleset org_id (fst g) RsTrue None (state_file (wld ps)) of
        (Inl e, file) \<Rightarrow> Some (Inl e)
      | (Inr v, file) \<Rightarrow>
          Some (Inr (fst g,
                     ps\<lparr>wld := (wld ps)\<lparr>state_file := file, org_dir := d2\<rparr>,
                        uuid_count := snd g\<rparr>)))))))"

text \<open>The first statement of \<^verbatim>\<open>State.create_ruleset\<close>: the choice of \<^verbatim>\<open>data\<close>.\<close>

definition create_ruleset_payload :: "(string \<Rightarrow> error + pyval) \<Rightarrow> pyval \<Rightarrow> error + pyval" where
  "create_ruleset_payload ext ruleset_data =
     (if is_str ruleset_data then read_json_arg ext ruleset_data else Inr ruleset_data)"

text \<open>\<^verbatim>\<open>State.create_ruleset\<close>, undecorated.\<close>

definition create_ruleset ::
  "(string \<Rightarrow> error + pyval) \<Rightarrow> (nat \<Rightarrow> string) \<Rightarrow> string \<Rightarrow> string
    \<Rightarrow> pyval \<times> string option \<Rightarrow> process \<Rightarrow> (error + retval \<times> process) option" where
  "create_ruleset ext uuid4 org_id postfix args ps =
     (let ruleset_data = fst args; name_postfix = snd args
      in case create_ruleset_payload ext ruleset_data of
           Inl e \<Rightarrow> Some (Inl e)
         | Inr data \<Rightarrow>
             (case uniquify (ruleset_name_occurs (org_dir (wld ps)))
                     (effective_postfix name_postfix) data of
                None \<Rightarrow> None
              | Some (Inl e) \<Rightarrow> Some (Inl e)
              | Some (Inr c) \<Rightarrow>
                  (case create_ruleset_local uuid4 org_id postfix c ps of
                     None \<Rightarrow> None
                   | Some (Inl e) \<Rightarrow> Some (Inl e)
                   | Some (Inr res) \<Rightarrow> Some (Inr (RetStr (fst res), snd res)))))"

text \<open>
  \<^verbatim>\<open>json.dump\<close> of a value given by the caller: a string is written as a JSON string.
\<close>

definition to_json :: "pyval \<Rightarrow> error + content" where
  "to_json v =
     (case v of
        PyJson c \<Rightarrow> Inr c
      | PyStr s \<Rightarrow> Inr (StrJson s)
      | PyNone \<Rightarrow> Inr OtherJson
      | PyStrClass \<Rightarrow> Inl TypeError)"

text \<open>\<^verbatim>\<open>_create_rule\<close>\<close>

definition create_rule_local ::
  "(nat \<Rightarrow> string) \<Rightarrow> string \<Rightarrow> string \<Rightarrow> string \<Rightarrow> content \<Rightarrow> pyval \<Rightarrow> process
    \<Rightarrow> (error + retval \<times> process) option" where
  "create_rule_local uuid4 org_id postfix ruleset_id rule_data tags_data ps =
     (if \<not> isdir (org_dir (wld ps)) [ruleset_id] then Some (Inr (RetNone, ps))
      else
     (case listdir (org_dir (wld ps)) [ruleset_id] of
        Inl e \<Rightarrow> Some (Inl e)
      | Inr names \<Rightarrow>
     (case fresh_id uuid4 postfix names (uuid_count ps) of
        None \<Rightarrow> None
      | Some g \<Rightarrow>
     (case mkdir [ruleset_id, fst g] (org_dir (wld ps)) of
        Inl e \<Rightarrow> Some (Inl e)
      | Inr d1 \<Rightarrow>
     (case write_json [ruleset_id, fst g, ''rule.json''] rule_data d1 of
        Inl e \<Rightarrow> Some (Inl e)
      | Inr d2 \<Rightarrow>
     (case to_json tags_data of
        Inl e \<Rightarrow> Some (Inl e)
      | Inr tags \<Rightarrow>
     (case write_json [ruleset_id, fst g, ''tags.json''] tags d2 of
        Inl e \<Rightarrow> Some (Inl e)
      | Inr d3 \<Rightarrow>
     (case read_json d3 [ruleset_id, ''ruleset.json''] of
        Inl e \<Rightarrow> Some (Inl e)
      | Inr c \<Rightarrow>
     (case as_ruleset c of
        Inl e \<Rightarrow> Some (Inl e)
      | Inr ruleset_data \<Rightarrow>
     (case write_json [ruleset_id, ''ruleset.json'']
             (RulesetJson (ruleset_data\<lparr>rs_ruleIds := rs_ruleIds ruleset_data @ [fst g]\<rparr>)) d3 of
        Inl e \<Rightarrow> Some (Inl e)
      | Inr d4 \<Rightarrow>
     (case state_add_rule org_id ruleset_id (fst g) Both None (state_file (wld ps)) of
        (Inl e, file) \<Rightarrow> Some (Inl e)
      | (Inr v, file) \<Rightarrow>
          Some (Inr (RetStr (fst g),
                     ps\<lparr>wld := (wld ps)\<lparr>state_file := file, org_dir := d4\<rparr>,
                        uuid_count := snd g\<rparr>)))))))))))))"

text \<open>
  The first statements of \<^verbatim>\<open>State.create_rule\<close>: the choice of \<^verbatim>\<open>data\<close> and of \<^verbatim>\<open>tags\<close>.
  \<^verbatim>\<open>dict()\<close> stands in for tags that are \<^verbatim>\<open>None\<close>.
\<close>

definition create_rule_payload ::
  "(string \<Rightarrow> error + pyval) \<Rightarrow> pyval \<Rightarrow> pyval \<Rightarrow> error + pyval \<times> pyval" where
  "create_rule_payload ext rule_data tags_data =
     (case (if is_str rule_data then read_json_arg ext rule_data else Inr rule_data) of
        Inl e \<Rightarrow> Inl e
      | Inr data \<Rightarrow>
          (case (if tags_data = PyNone then Inr (PyJson EmptyJson)
                 else if is_str tags_data then read_json_arg ext tags_data
                 else Inr tags_data) of
             Inl e \<Rightarrow> Inl e
           | Inr tags \<Rightarrow> Inr (data, tags)))"

text \<open>\<^verbatim>\<open>State.create_rule\<close>, undecorated.\<close>

definition create_rule ::
  "(string \<Rightarrow> error + pyval) \<Rightarrow> (nat \<Rightarrow> string) \<Rightarrow> string \<Rightarrow> string
    \<Rightarrow> string \<times> pyval \<times> pyval \<times> string option \<Rightarrow> process
    \<Rightarrow> (error + retval \<times> process) option" where
  "create_rule ext uuid4 org_id postfix args ps =
     (let ruleset_id = fst args; rule_data = fst (snd args);
          tags_data = fst (snd (snd args)); name_postfix = snd (snd (snd args))
      in case create_rule_payload ext rule_data tags_data of
           Inl e \<Rightarrow> Some (Inl e)
         | Inr payload \<Rightarrow>
             (case uniquify (rule_name_occurs (org_dir (wld ps)))
                     (effective_postfix name_postfix) (fst payload) of
                None \<Rightarrow> None
              | Some (Inl e) \<Rightarrow> Some (Inl e)
              | Some (Inr c) \<Rightarrow>
                  create_rule_local uuid4 org_id postfix ruleset_id c (snd payload) ps))"

text \<open>
  The decorator \<^verbatim>\<open>lazy\<close>. \<open>lazy_eval\<close> is the module variable imported from the package, which
  is not among the sources; \<open>push_self\<close> is the method \<^verbatim>\<open>push\<close> of the engine. When
  \<open>lazy_eval\<close> is false, \<^verbatim>\<open>res.push()\<close> is evaluated on whatever the operation returned, if not
  \<^verbatim>\<open>None\<close>; a string has no attribute \<^verbatim>\<open>push\<close>.
\<close>

definition lazy ::
  "bool \<Rightarrow> (process \<Rightarrow> error + process) \<Rightarrow> ('a \<Rightarrow> process \<Rightarrow> (error + retval \<times> process) option)
    \<Rightarrow> 'a \<Rightarrow> process \<Rightarrow> (error + retval \<times> process) option" where
  "lazy lazy_eval push_self f args ps =
     (if lazy_eval then f args ps
      else
        (case f args ps of
           None \<Rightarrow> None
         | Some (Inl e) \<Rightarrow> Some (Inl e)
         | Some (Inr res) \<Rightarrow>
             (case fst res of
                RetNone \<Rightarrow> Some (Inr res)
              | RetStr s \<Rightarrow> Some (Inl AttributeError)
              | RetSelf \<Rightarrow>
                  (case push_self (snd res) of
                     Inl e \<Rightarrow> Some (Inl e)
                   | Inr ps' \<Rightarrow> Some (Inr (fst res, ps'))))))"

text \<open>\<^verbatim>\<open>self.push()\<close> on the process.\<close>

definition push_self :: "api \<Rightarrow> string \<Rightarrow> string \<Rightarrow> process \<Rightarrow> error + process" where
  "push_self remote org_id postfix ps =
     (case push remote org_id postfix (wld ps) of
        Inl e \<Rightarrow> Inl e
      | Inr w \<Rightarrow> Inr (ps\<lparr>wld := w\<rparr>))"

text \<open>
  \<^verbatim>\<open>State.delete_ruleset\<close>, undecorated, with \<^verbatim>\<open>_delete_ruleset\<close>: it returns \<^verbatim>\<open>self\<close> whether or
  not the ruleset existed.
\<close>

definition delete_ruleset :: "string \<Rightarrow> string \<Rightarrow> string \<Rightarrow> process \<Rightarrow> (error + retval \<times> process) option" where
  "delete_ruleset org_id postfix ruleset_id ps =
     (if \<not> isdir (org_dir (wld ps)) [ruleset_id] then Some (Inr (RetSelf, ps))
      else
        (case rmtree [ruleset_id] (org_dir (wld ps)) of
           Inl e \<Rightarrow> Some (Inl e)
         | Inr d1 \<Rightarrow>
             (case state_delete_ruleset org_id postfix ruleset_id None (state_file (wld ps)) of
                (Inl e, file) \<Rightarrow> Some (Inl e)
              | (Inr v, file) \<Rightarrow>
                  Some (Inr (RetSelf, ps\<lparr>wld := (wld ps)\<lparr>state_file := file, org_dir := d1\<rparr>\<rparr>)))))"


section \<open>Example worlds\<close>

definition rule_dir1 :: node where
  "rule_dir1 = Dir [(''rule.json'', File (RuleJson \<lparr>r_name = ''a'', r_rest = ''''\<rparr>)),
                    (''tags.json'', File (TagsJson ''t''))]"

definition ruleset_json1 :: "string list \<Rightarrow> content" where
  "ruleset_json1 ids = RulesetJson \<lparr>rs_name = ''n'', rs_ruleIds = ids, rs_rest = ''''\<rparr>"

text \<open>A local-only ruleset with one local-only rule, as \<^verbatim>\<open>create_ruleset\<close> and \<^verbatim>\<open>create_rule\<close> leave it.\<close>

definition world1 :: world where
  "world1 =
     \<lparr>state_file = \<lparr>workspace = ''org1'', organizations =
         [(''org1'', [(''x1-localonly'',
                       \<lparr>modified = RsTrue, ruleIds = [(''u1-localonly'', Both)]\<rparr>)])]\<rparr>,
      org_dir = Dir [(''x1-localonly'',
                 Dir [(''ruleset.json'', File (ruleset_json1 [''u1-localonly''])),
                      (''u1-localonly'', rule_dir1)])],
      api_log = []\<rparr>"

text \<open>
  The same after \<^verbatim>\<open>update_ruleset\<close> with a document whose \<^verbatim>\<open>ruleIds\<close> is empty: the rule is
  tracked in the state file and not listed in \<^verbatim>\<open>ruleset.json\<close>.
\<close>

definition world2 :: world where
  "world2 =
     \<lparr>state_file = \<lparr>workspace = ''org1'', organizations =
         [(''org1'', [(''x1-localonly'',
                       \<lparr>modified = RsTrue, ruleIds = [(''u1-localonly'', Both)]\<rparr>)])]\<rparr>,
      org_dir = Dir [(''x1-localonly'',
                 Dir [(''ruleset.json'', File (ruleset_json1 [])),
                      (''u1-localonly'', rule_dir1)])],
      api_log = []\<rparr>"

text \<open>An organization with one ruleset that exists remotely, nothing pending.\<close>

definition world3 :: world where
  "world3 =
     \<lparr>state_file = \<lparr>workspace = ''org1'', organizations = [(''org2'', [(''rs7'', \<lparr>modified = RsTrue, ruleIds = []\<rparr>)])]\<rparr>,
      org_dir = Dir [(''rs1'',
                 Dir [(''ruleset.json'', File (ruleset_json1 [''r1''])), (''r1'', rule_dir1)])],
      api_log = []\<rparr>"

text \<open>An organization with pending work, for \<^verbatim>\<open>refresh\<close>.\<close>

definition world4 :: world where
  "world4 =
     \<lparr>state_file = \<lparr>workspace = ''org1'', organizations =
         [(''org1'', [(''rs1'', \<lparr>modified = RsTrue, ruleIds = [(''r1'', Rule)]\<rparr>)])]\<rparr>,
      org_dir = Dir [(''rs1'',
                 Dir [(''ruleset.json'', File (ruleset_json1 [''r1''])), (''r1'', rule_dir1)])],
      api_log = []\<rparr>"

text \<open>Remotes: one on which every call succeeds, and variants on which one kind of call fails.\<close>

definition remote_ok :: api where
  "remote_ok h c =
     (case c of
        PostRuleset d \<Rightarrow> RespId ''N1''
      | PostRule rs d \<Rightarrow> RespId ''R1''
      | GetRulesets \<Rightarrow>
          RespRulesets [\<lparr>rr_id = ''A'', rr_createdAt = ''c'', rr_updatedAt = ''u'',
                         rr_data = \<lparr>rs_name = ''ra'', rs_ruleIds = [''a1''], rs_rest = ''''\<rparr>\<rparr>]
      | GetRulesetRules rs \<Rightarrow> RespRules [\<lparr>rl_id = ''a1'', rl_data = \<lparr>r_name = ''a'', r_rest = ''''\<rparr>\<rparr>]
      | GetRuleTags r \<Rightarrow> RespTags ''t''
      | _ \<Rightarrow> RespNone)"

definition remote_tags_fail :: api where
  "remote_tags_fail h c = (case c of PostTags r d \<Rightarrow> RaiseURLError | _ \<Rightarrow> remote_ok h c)"

definition remote_errors :: api where
  "remote_errors h c = (case c of GetRulesets \<Rightarrow> RespErrors | _ \<Rightarrow> remote_ok h c)"

definition no_files :: "string \<Rightarrow> error + pyval" where
  "no_files path = Inl FileNotFoundError"

definition uuid_seq :: "nat \<Rightarrow> string" where
  "uuid_seq n = replicate (Suc n) CHR ''u''"

definition process3 :: process where
  "process3 = \<lparr>wld = world3, uuid_count = 0\<rparr>"


text \<open>
  A local-only ruleset with its rule, tracked before a second ruleset \<open>N9\<close> of which an earlier
  \<^verbatim>\<open>push\<close> created the rule \<open>R9\<close> and failed to post the tags: the state file tracks that rule
  under the identifier it had, and its directory has been renamed.
\<close>

definition world5 :: world where
  "world5 =
     \<lparr>state_file = \<lparr>workspace = ''org1'', organizations =
         [(''org1'', [(''x1-localonly'',
                       \<lparr>modified = RsTrue, ruleIds = [(''u1-localonly'', Both)]\<rparr>),
                      (''N9'',
                       \<lparr>modified = RsTrue, ruleIds = [(''u9-localonly'', Tags)]\<rparr>)])]\<rparr>,
      org_dir = Dir [(''x1-localonly'',
                 Dir [(''ruleset.json'', File (ruleset_json1 [''u1-localonly''])),
                      (''u1-localonly'', rule_dir1)]),
                (''N9'',
                 Dir [(''ruleset.json'',
                       File (RulesetJson \<lparr>rs_name = ''m'', rs_ruleIds = [''R9''], rs_rest = []\<rparr>)),
                      (''R9'', rule_dir1)])],
      api_log = []\<rparr>"

text \<open>The local variables of \<^verbatim>\<open>push\<close> on that world when its loop starts.\<close>

definition run5 :: run where
  "run5 =
     \<lparr>pending = [(''x1-localonly'', \<lparr>modified = RsTrue, ruleIds = [(''u1-localonly'', Both)]\<rparr>),
                 (''N9'', \<lparr>modified = RsTrue, ruleIds = [(''u9-localonly'', Tags)]\<rparr>)],
      disk = org_dir world5, log = []\<rparr>"


text \<open>What the runs on these worlds give (each is proved below to be the result).\<close>

definition world1_tags_failed :: world where
  "world1_tags_failed =
     \<lparr>state_file = \<lparr>workspace = ''org1'', organizations =
         [(''org1'', [(''N1'', \<lparr>modified = RsTrue, ruleIds = [(''u1-localonly'', Tags)]\<rparr>)])]\<rparr>,
      org_dir = Dir [(''N1'',
                 Dir [(''ruleset.json'', File (ruleset_json1 [''R1''])), (''R1'', rule_dir1)])],
      api_log =
        [(PostRuleset (ruleset_json1 []), RespId ''N1''),
         (PostRule ''N1'' (RuleJson \<lparr>r_name = ''a'', r_rest = ''''\<rparr>), RespId ''R1''),
         (PostTags ''R1'' (TagsJson ''t''), RaiseURLError)]\<rparr>"

definition world2_pushed :: world where
  "world2_pushed =
     \<lparr>state_file = \<lparr>workspace = ''org1'', organizations =
         [(''org1'', [(''N1'', \<lparr>modified = RsTrue, ruleIds = [(''u1-localonly'', Both)]\<rparr>)])]\<rparr>,
      org_dir = Dir [(''N1'',
                 Dir [(''ruleset.json'', File (ruleset_json1 [])),
                      (''u1-localonly'', rule_dir1)])],
      api_log = [(PostRuleset (ruleset_json1 []), RespId ''N1'')]\<rparr>"

definition world2_pushed_twice :: world where
  "world2_pushed_twice =
     \<lparr>state_file = \<lparr>workspace = ''org1'', organizations = []\<rparr>,
      org_dir = Dir [(''N1'',
                 Dir [(''ruleset.json'', File (ruleset_json1 [])),
                      (''u1-localonly'', rule_dir1)])],
      api_log =
        [(PostRuleset (ruleset_json1 []), RespId ''N1''),
         (PutRuleset ''N1'' (ruleset_json1 []), RespNone),
         (PutRule ''N1'' ''u1-localonly'' (RuleJson \<lparr>r_name = ''a'', r_rest = ''''\<rparr>), RespNone),
         (PostTags ''u1-localonly'' (TagsJson ''t''), RespNone)]\<rparr>"

definition world4_abandoned :: world where
  "world4_abandoned =
     \<lparr>state_file = state_file world4,
      org_dir = Dir [(''.backup'',
                      Dir [(''rs1'',
                            Dir [(''ruleset.json'', File (ruleset_json1 [''r1''])),
                                 (''r1'', rule_dir1)])]),
                     (''.remote'', Dir [])],
      api_log = [(GetRulesets, RespErrors)]\<rparr>"

definition process3_created :: process where
  "process3_created =
     \<lparr>wld =
        \<lparr>state_file = \<lparr>workspace = ''org1'', organizations =
            [(''org2'', [(''rs7'', \<lparr>modified = RsTrue, ruleIds = []\<rparr>)]),
             (''org1'', [(''u-localonly'', \<lparr>modified = RsTrue, ruleIds = []\<rparr>)])]\<rparr>,
         org_dir = Dir [(''rs1'',
                         Dir [(''ruleset.json'', File (ruleset_json1 [''r1''])),
                              (''r1'', rule_dir1)]),
                        (''u-localonly'',
                         Dir [(''ruleset.json'',
                               File (RulesetJson \<lparr>rs_name = ''n - COPY'', rs_ruleIds = [],
                                                   rs_rest = ''''\<rparr>))])],
         api_log = []\<rparr>,
      uuid_count = 1\<rparr>"

definition backup_of_world4 :: node where
  "backup_of_world4 =
     Dir [(''rs1'', Dir [(''ruleset.json'', File (ruleset_json1 [''r1''])), (''r1'', rule_dir1)])]"

definition remote_of_world4 :: node where
  "remote_of_world4 =
     Dir [(''A'',
           Dir [(''ruleset.json'',
                 File (RulesetJson \<lparr>rs_name = ''ra'', rs_ruleIds = [''a1''], rs_rest = []\<rparr>)),
                (''a1'', rule_dir1)])]"

definition world4_prepared :: node where
  "world4_prepared = Dir [(''.backup'', backup_of_world4), (''.remote'', Dir [])]"

definition world4_fetched :: node where
  "world4_fetched = Dir [(''.backup'', backup_of_world4), (''.remote'', remote_of_world4)]"

definition world4_log :: exchange where
  "world4_log =
     [(GetRulesets,
       RespRulesets [\<lparr>rr_id = ''A'', rr_createdAt = ''c'', rr_updatedAt = ''u'',
                      rr_data = \<lparr>rs_name = ''ra'', rs_ruleIds = [''a1''], rs_rest = []\<rparr>\<rparr>]),
      (GetRulesetRules ''A'',
       RespRules [\<lparr>rl_id = ''a1'', rl_data = \<lparr>r_name = ''a'', r_rest = []\<rparr>\<rparr>]),
      (GetRuleTags ''a1'', RespTags ''t'')]"

definition world4_refreshed :: world where
  "world4_refreshed =
     \<lparr>state_file = \<lparr>workspace = ''org1'', organizations = []\<rparr>,
      org_dir = remote_of_world4,
      api_log = world4_log\<rparr>"

definition world1_pushed :: world where
  "world1_pushed =
     \<lparr>state_file = \<lparr>workspace = ''org1'', organizations = []\<rparr>,
      org_dir = Dir [(''N1'',
                 Dir [(''ruleset.json'', File (ruleset_json1 [''R1''])), (''R1'', rule_dir1)])],
      api_log =
        [(PostRuleset (ruleset_json1 []), RespId ''N1''),
         (PostRule ''N1'' (RuleJson \<lparr>r_name = ''a'', r_rest = []\<rparr>), RespId ''R1''),
         (PostTags ''R1'' (TagsJson ''t''), RespNone)]\<rparr>"

definition run5_renamed :: run where
  "run5_renamed =
     \<lparr>pending = [(''N9'', \<lparr>modified = RsTrue, ruleIds = [(''u9-localonly'', Tags)]\<rparr>)],
      disk = Dir [(''N9'',
                 Dir [(''ruleset.json'',
                       File (RulesetJson \<lparr>rs_name = ''m'', rs_ruleIds = [''R9''], rs_rest = []\<rparr>)),
                      (''R9'', rule_dir1)]),
                (''N1'',
                 Dir [(''ruleset.json'', File (ruleset_json1 [''R1''])), (''R1'', rule_dir1)])],
      log =
        [(PostRuleset (ruleset_json1 []), RespId ''N1''),
         (PostRule ''N1'' (RuleJson \<lparr>r_name = ''a'', r_rest = []\<rparr>), RespId ''R1''),
         (PostTags ''R1'' (TagsJson ''t''), RespNone)]\<rparr>"


section \<open>Notions the claims are stated with\<close>

text \<open>
  A call succeeded when it neither raised nor returned a response with \<^verbatim>\<open>errors\<close>. A remote
  write is any call but the three reads.
\<close>

definition call_succeeded :: "call \<times> response \<Rightarrow> bool" where
  "call_succeeded x =
     (snd x \<noteq> RaiseURLError \<and> snd x \<noteq> RaiseKeyboardInterrupt \<and> snd x \<noteq> RespErrors)"

definition remote_write :: "call \<Rightarrow> bool" where
  "remote_write c =
     (case c of
        GetRulesets \<Rightarrow> False
      | GetRulesetRules rs \<Rightarrow> False
      | GetRuleTags r \<Rightarrow> False
      | _ \<Rightarrow> True)"

text \<open>
  A clean call: it succeeded, and an identifier it assigned does not carry the local-only
  postfix (the postfix marks what does not exist remotely).
\<close>

definition clean_call :: "string \<Rightarrow> call \<times> response \<Rightarrow> bool" where
  "clean_call postfix x =
     (call_succeeded x \<and> (case snd x of RespId i \<Rightarrow> \<not> endswith i postfix | _ \<Rightarrow> True))"

text \<open>
  Every rule tracked under a local-only ruleset is listed in the \<^verbatim>\<open>ruleIds\<close> of that ruleset's
  \<^verbatim>\<open>ruleset.json\<close> (invariant 4 of the specification's data model, for the rulesets that
  \<^verbatim>\<open>push\<close> creates remotely).
\<close>

definition listed_in_ruleset_json :: "node \<Rightarrow> string \<Rightarrow> ruleset_entry \<Rightarrow> bool" where
  "listed_in_ruleset_json d ruleset_id e =
     (case read_json d [ruleset_id, ''ruleset.json''] of
        Inr (RulesetJson rd) \<Rightarrow> list_all (\<lambda>p. fst p \<in> set (rs_ruleIds rd)) (ruleIds e)
      | _ \<Rightarrow> True)"

definition localonly_rules_listed :: "string \<Rightarrow> string \<Rightarrow> world \<Rightarrow> bool" where
  "localonly_rules_listed org_id postfix w =
     (case map_of (organizations (state_file w)) org_id of
        None \<Rightarrow> True
      | Some oe \<Rightarrow>
          list_all (\<lambda>p. if endswith (fst p) postfix
                         then listed_in_ruleset_json (org_dir w) (fst p) (snd p) else True) oe)"



text \<open>
  The state file once \<^verbatim>\<open>push\<close> has run on the world \<open>w\<close> with the outcome \<open>res\<close>: the one it wrote
  when it returned, the one it read when it raised (it writes the state file once, at the end).
\<close>

definition state_file_after :: "world \<Rightarrow> error + world \<Rightarrow> state_doc" where
  "state_file_after w res = (case res of Inl e \<Rightarrow> state_file w | Inr w' \<Rightarrow> state_file w')"


section \<open>Properties of the state-file primitives\<close>

lemma tracked_rule_set_org:
  "tracked_rule (set_org org_id (AList.update ruleset_id e oe) st) org_id ruleset_id rule_id
     = map_of (ruleIds e) rule_id"
  by (simp add: tracked_rule_def tracked_ruleset_def set_org_def update_conv')

lemma tracked_ruleset_set_org:
  "tracked_ruleset (set_org org_id (AList.update ruleset_id e oe) st) org_id ruleset_id = Some e"
  by (simp add: tracked_ruleset_def set_org_def update_conv')

lemma add_rule_status_join:
  "cur \<noteq> Del \<Longrightarrow> endpoint \<noteq> Del
    \<Longrightarrow> add_rule_status endpoint cur = Inr (status_join cur endpoint)"
  by (cases cur; cases endpoint) (simp_all add: add_rule_status_def status_join_def)

lemma add_rule_status_del:
  "endpoint \<noteq> Del \<Longrightarrow> add_rule_status endpoint Del = Inl ValueError"
  by (simp add: add_rule_status_def)

text \<open>
  C5. \<^verbatim>\<open>_state_add_rule\<close> with an endpoint other than \<open>del\<close>, committing to the state file:
  on a tracked rule whose status is not \<open>del\<close> the new status is the join of the old status and
  the endpoint; on a tracked rule whose status is \<open>del\<close> the call raises \<^verbatim>\<open>ValueError\<close>; when
  the ruleset is not tracked (with or without its organization), its entry is created with
  \<open>modified = false\<close> and holds the rule with the endpoint as its status.
\<close>

theorem state_add_rule_join:
  assumes "endpoint \<noteq> Del"
  shows "(\<forall>cur. tracked_rule file org_id ruleset_id rule_id = Some cur \<and> cur \<noteq> Del \<longrightarrow>
            (\<exists>file'. state_add_rule org_id ruleset_id rule_id endpoint None file = (Inr None, file')
               \<and> tracked_rule file' org_id ruleset_id rule_id = Some (status_join cur endpoint)))
       \<and> (tracked_rule file org_id ruleset_id rule_id = Some Del \<longrightarrow>
            state_add_rule org_id ruleset_id rule_id endpoint None file = (Inl ValueError, file))
       \<and> (tracked_ruleset file org_id ruleset_id = None \<longrightarrow>
            (\<exists>file'. state_add_rule org_id ruleset_id rule_id endpoint None file = (Inr None, file')
               \<and> tracked_ruleset file' org_id ruleset_id
                    = Some \<lparr>modified = RsFalse, ruleIds = [(rule_id, endpoint)]\<rparr>))"
proof (intro conjI allI impI)
  fix cur
  assume h: "tracked_rule file org_id ruleset_id rule_id = Some cur \<and> cur \<noteq> Del"
  then obtain oe e where oe: "map_of (organizations file) org_id = Some oe"
    and e: "map_of oe ruleset_id = Some e" and c: "map_of (ruleIds e) rule_id = Some cur"
    by (auto simp: tracked_rule_def tracked_ruleset_def split: option.splits)
  from h assms have j: "add_rule_status endpoint cur = Inr (status_join cur endpoint)"
    by (simp add: add_rule_status_join)
  show "\<exists>file'. state_add_rule org_id ruleset_id rule_id endpoint None file = (Inr None, file')
               \<and> tracked_rule file' org_id ruleset_id rule_id = Some (status_join cur endpoint)"
    using oe e c j
    by (simp add: state_add_rule_def commit_def state_add_rule_body_def
        state_add_rule_tracked_def tracked_rule_set_org update_conv')
next
  assume h: "tracked_rule file org_id ruleset_id rule_id = Some Del"
  then obtain oe e where oe: "map_of (organizations file) org_id = Some oe"
    and e: "map_of oe ruleset_id = Some e" and c: "map_of (ruleIds e) rule_id = Some Del"
    by (auto simp: tracked_rule_def tracked_ruleset_def split: option.splits)
  show "state_add_rule org_id ruleset_id rule_id endpoint None file = (Inl ValueError, file)"
    using oe e c assms
    by (simp add: state_add_rule_def commit_def state_add_rule_body_def
        state_add_rule_tracked_def add_rule_status_del)
next
  assume h: "tracked_ruleset file org_id ruleset_id = None"
  show "\<exists>file'. state_add_rule org_id ruleset_id rule_id endpoint None file = (Inr None, file')
               \<and> tracked_ruleset file' org_id ruleset_id
                    = Some \<lparr>modified = RsFalse, ruleIds = [(rule_id, endpoint)]\<rparr>"
  proof (cases "map_of (organizations file) org_id")
    case None
    then show ?thesis
      by (simp add: state_add_rule_def commit_def state_add_rule_body_def numeral_2_eq_2
          state_add_organization_body_def state_add_ruleset_body_def set_org_def update_conv'
          state_add_rule_tracked_def tracked_ruleset_def)
  next
    case (Some oe)
    with h have "map_of oe ruleset_id = None" by (simp add: tracked_ruleset_def)
    with Some show ?thesis
      by (simp add: state_add_rule_def commit_def state_add_rule_body_def numeral_2_eq_2
          state_add_ruleset_body_def set_org_def update_conv'
          state_add_rule_tracked_def tracked_ruleset_def)
  qed
qed

theorem state_add_rule_join_witness:
  "Rule \<noteq> Del
   \<and> tracked_rule doc1 ''org1'' ''rs1'' ''r1'' = Some Tags
   \<and> (\<exists>file'. state_add_rule ''org1'' ''rs1'' ''r1'' Rule None doc1 = (Inr None, file')
         \<and> tracked_rule file' ''org1'' ''rs1'' ''r1'' = Some Both)
   \<and> tracked_rule doc1 ''org1'' ''rs1'' ''r2'' = Some Del
   \<and> state_add_rule ''org1'' ''rs1'' ''r2'' Rule None doc1 = (Inl ValueError, doc1)
   \<and> tracked_ruleset doc1 ''org1'' ''rs2'' = None
   \<and> (\<exists>file'. state_add_rule ''org1'' ''rs2'' ''r3'' Rule None doc1 = (Inr None, file')
         \<and> tracked_ruleset file' ''org1'' ''rs2''
              = Some \<lparr>modified = RsFalse, ruleIds = [(''r3'', Rule)]\<rparr>)"
proof -
  have e: "Rule \<noteq> Del" by simp
  have a: "tracked_rule doc1 ''org1'' ''rs1'' ''r1'' = Some Tags"
    by (simp add: tracked_rule_def tracked_ruleset_def doc1_def)
  have b: "tracked_rule doc1 ''org1'' ''rs1'' ''r2'' = Some Del"
    by (simp add: tracked_rule_def tracked_ruleset_def doc1_def)
  have c: "tracked_ruleset doc1 ''org1'' ''rs2'' = None"
    by (simp add: tracked_ruleset_def doc1_def)
  have j: "status_join Tags Rule = Both" by (simp add: status_join_def)
  from state_add_rule_join [OF e, of doc1 "''org1''" "''rs1''" "''r1''"] a j
  have 1: "\<exists>file'. state_add_rule ''org1'' ''rs1'' ''r1'' Rule None doc1 = (Inr None, file')
         \<and> tracked_rule file' ''org1'' ''rs1'' ''r1'' = Some Both" by simp
  from state_add_rule_join [OF e, of doc1 "''org1''" "''rs1''" "''r2''"] b
  have 2: "state_add_rule ''org1'' ''rs1'' ''r2'' Rule None doc1 = (Inl ValueError, doc1)" by simp
  from state_add_rule_join [OF e, of doc1 "''org1''" "''rs2''" "''r3''"] c
  have 3: "\<exists>file'. state_add_rule ''org1'' ''rs2'' ''r3'' Rule None doc1 = (Inr None, file')
         \<and> tracked_ruleset file' ''org1'' ''rs2''
              = Some \<lparr>modified = RsFalse, ruleIds = [(''r3'', Rule)]\<rparr>"
    by blast
  from e a b c 1 2 3 show ?thesis by blast
qed

text \<open>
  C6. \<open>del\<close> is terminal for rulesets: \<^verbatim>\<open>_state_add_ruleset\<close> with an action other than
  \<open>del\<close> on a ruleset tracked with \<open>modified = del\<close> raises \<^verbatim>\<open>ValueError\<close> (the source's
  exception for this violated invariant), and the state file after the failed call is the
  state file before it, so the ruleset's entry is unchanged.
\<close>

theorem state_add_ruleset_del_terminal:
  assumes "tracked_ruleset file org_id ruleset_id = Some e" and "modified e = RsDel"
    and "action \<noteq> RsDel"
  shows "state_add_ruleset org_id ruleset_id action None file = (Inl ValueError, file)
       \<and> tracked_ruleset (snd (state_add_ruleset org_id ruleset_id action None file))
            org_id ruleset_id = Some e"
  using assms
  by (auto simp: state_add_ruleset_def commit_def state_add_ruleset_body_def tracked_ruleset_def
      split: option.splits)

theorem state_add_ruleset_del_terminal_witness:
  "tracked_ruleset doc1 ''org1'' ''rs9'' = Some \<lparr>modified = RsDel, ruleIds = []\<rparr>
   \<and> state_add_ruleset ''org1'' ''rs9'' RsTrue None doc1 = (Inl ValueError, doc1)
   \<and> tracked_ruleset (snd (state_add_ruleset ''org1'' ''rs9'' RsTrue None doc1)) ''org1'' ''rs9''
        = Some \<lparr>modified = RsDel, ruleIds = []\<rparr>"
proof -
  have a: "tracked_ruleset doc1 ''org1'' ''rs9'' = Some \<lparr>modified = RsDel, ruleIds = []\<rparr>"
    by (simp add: tracked_ruleset_def doc1_def)
  have b: "modified \<lparr>modified = RsDel, ruleIds = []\<rparr> = RsDel" by simp
  have c: "RsTrue \<noteq> RsDel" by simp
  from state_add_ruleset_del_terminal [OF a b c] a show ?thesis by simp
qed


subsection \<open>The pruning invariant\<close>


lemma set_update_subset: "set (AList.update k v al) \<subseteq> insert (k, v) (set al)"
  by (induction al) auto

lemma set_delete_subset: "set (AList.delete k al) \<subseteq> set al"
  by (auto simp: AList.delete_eq)

lemma pruned_alt: "pruned st = (\<forall>(org_id, oe) \<in> set (organizations st). oe \<noteq> [] \<and> ok_entries oe)"
  by (simp add: pruned_def ok_entries_def)

lemma pruned_set_org:
  "pruned st \<Longrightarrow> oe \<noteq> [] \<Longrightarrow> ok_entries oe \<Longrightarrow> pruned (set_org org_id oe st)"
  using set_update_subset [of org_id oe "organizations st"]
  by (auto simp: pruned_alt set_org_def)

lemma pruned_pop_org: "pruned st \<Longrightarrow> pruned (pop_org org_id st)"
  using set_delete_subset [of org_id "organizations st"]
  by (auto simp: pruned_alt pop_org_def)

lemma pruned_lookup:
  "pruned st \<Longrightarrow> map_of (organizations st) org_id = Some oe \<Longrightarrow> oe \<noteq> [] \<and> ok_entries oe"
  by (auto simp: pruned_alt dest!: map_of_SomeD)

lemma ok_entries_update:
  "ok_entries oe \<Longrightarrow> \<not> (ruleIds e = [] \<and> modified e = RsFalse)
    \<Longrightarrow> ok_entries (AList.update ruleset_id e oe)"
  using set_update_subset [of ruleset_id e oe]
  by (auto simp: ok_entries_def)

lemma ok_entries_delete: "ok_entries oe \<Longrightarrow> ok_entries (AList.delete ruleset_id oe)"
  using set_delete_subset [of ruleset_id oe]
  by (auto simp: ok_entries_def)

lemma ok_entries_Nil: "ok_entries []"
  by (simp add: ok_entries_def)

lemma ok_entries_single: "\<not> (ruleIds e = [] \<and> modified e = RsFalse) \<Longrightarrow> ok_entries [(k, e)]"
  by (simp add: ok_entries_def)

lemma pruned_delete_organization:
  "pruned st \<Longrightarrow> pruned (state_delete_organization_body self_org oid st)"
  by (auto simp: state_delete_organization_body_def pruned_pop_org split: option.splits)

lemma pruned_delete_ruleset:
  "pruned st \<Longrightarrow> state_delete_ruleset_body org_id postfix ruleset_id st = Inr st'
    \<Longrightarrow> pruned st'"
  by (auto simp: state_delete_ruleset_body_def Let_def pruned_pop_org
      intro!: pruned_set_org ok_entries_update ok_entries_delete ok_entries_single
      dest: pruned_lookup split: option.splits if_splits)

lemma pruned_add_ruleset:
  "pruned st \<Longrightarrow> action \<noteq> RsFalse \<Longrightarrow> state_add_ruleset_body org_id ruleset_id action st = Inr st'
    \<Longrightarrow> pruned st'"
  by (auto simp: state_add_ruleset_body_def Let_def state_add_organization_body_def
        set_org_def update_conv' ok_entries_Nil
      intro!: pruned_set_org [unfolded set_org_def, simplified] ok_entries_update ok_entries_single
      dest: pruned_lookup split: option.splits if_splits)

lemma pruned_add_rule_tracked:
  "pruned st \<Longrightarrow> map_of (organizations st) org_id = Some oe
    \<Longrightarrow> state_add_rule_tracked org_id ruleset_id rule_id endpoint oe e st = Inr st'
    \<Longrightarrow> pruned st'"
  by (auto simp: state_add_rule_tracked_def
      intro!: pruned_set_org ok_entries_update
      dest: pruned_lookup split: option.splits sum.splits)


lemma pruned_add_rule_rec:
  "pruned st \<Longrightarrow> state_add_rule_rec n org_id ruleset_id rule_id endpoint st = Inr st'
    \<Longrightarrow> pruned st'"
proof (cases "tracked_ruleset st org_id ruleset_id")
  case (Some e)
  then obtain oe where "map_of (organizations st) org_id = Some oe" "map_of oe ruleset_id = Some e"
    by (auto simp: tracked_ruleset_def split: option.splits)
  then show "pruned st \<Longrightarrow> state_add_rule_rec n org_id ruleset_id rule_id endpoint st = Inr st'
    \<Longrightarrow> pruned st'"
    by (auto dest: pruned_add_rule_tracked)
next
  case None
  assume p: "pruned st" and r: "state_add_rule_rec n org_id ruleset_id rule_id endpoint st = Inr st'"
  let ?e = "\<lparr>modified = RsFalse, ruleIds = []\<rparr>"
  let ?e' = "\<lparr>modified = RsFalse, ruleIds = [(rule_id, endpoint)]\<rparr>"
  show "pruned st'"
  proof (cases "map_of (organizations st) org_id")
    case None
    with r obtain m where "n = Suc m" by (cases n) (auto simp: state_add_organization_body_def state_add_ruleset_body_def set_org_def update_conv')
    with None r have "st' = set_org org_id [(ruleset_id, ?e')] st"
      by (simp add: state_add_organization_body_def state_add_ruleset_body_def set_org_def update_conv' state_add_rule_tracked_def)
    with p show ?thesis by (simp add: pruned_set_org ok_entries_single)
  next
    case (Some oe)
    with \<open>tracked_ruleset st org_id ruleset_id = None\<close> have no: "map_of oe ruleset_id = None"
      by (simp add: tracked_ruleset_def)
    with Some r obtain m where "n = Suc m" by (cases n) (auto simp: state_add_ruleset_body_def)
    with Some no r have "st' = set_org org_id (AList.update ruleset_id ?e' oe) st"
      by (simp add: state_add_ruleset_body_def set_org_def update_conv' state_add_rule_tracked_def)
    with p Some show ?thesis
      by (auto intro!: pruned_set_org ok_entries_update dest: pruned_lookup)
  qed
qed

lemma pruned_delete_rule:
  "pruned st \<Longrightarrow> \<not> endswith rule_id postfix
    \<Longrightarrow> pruned (state_delete_rule_body org_id postfix ruleset_id rule_id st)"
  by (auto simp: state_delete_rule_body_def
      intro!: pruned_set_org ok_entries_update ok_entries_single
      dest: pruned_lookup split: option.splits)

text \<open>
  The primitives that delete an organization, delete a ruleset, add a rule, add a ruleset with
  an action other than \<open>false\<close>, or delete a rule whose identifier does not carry the local-only
  postfix, write a document that satisfies the pruning invariant whenever the document they
  read satisfies it. (When a primitive raises, the file is the one it read.)
\<close>

lemma pruning_preserved:
  assumes "pruned file"
  shows "pruned (snd (state_delete_organization org_id oid None file))
       \<and> pruned (snd (state_delete_ruleset org_id postfix ruleset_id None file))
       \<and> pruned (snd (state_add_rule org_id ruleset_id rule_id endpoint None file))
       \<and> (action \<noteq> RsFalse \<longrightarrow>
            pruned (snd (state_add_ruleset org_id ruleset_id action None file)))
       \<and> (\<not> endswith rule_id postfix \<longrightarrow>
            pruned (snd (state_delete_rule org_id postfix ruleset_id rule_id None file)))"
proof (intro conjI impI)
  show "pruned (snd (state_delete_organization org_id oid None file))"
    using assms by (simp add: state_delete_organization_def commit_def pruned_delete_organization)
  show "pruned (snd (state_delete_ruleset org_id postfix ruleset_id None file))"
    using assms 
    by (auto simp: state_delete_ruleset_def commit_def dest: pruned_delete_ruleset split: sum.splits)
  show "pruned (snd (state_add_rule org_id ruleset_id rule_id endpoint None file))"
    using assms 
    by (auto simp: state_add_rule_def commit_def state_add_rule_body_def
        simp del: state_add_rule_rec.simps dest: pruned_add_rule_rec split: sum.splits)
  show "pruned (snd (state_add_ruleset org_id ruleset_id action None file))" if "action \<noteq> RsFalse"
    using assms that
    by (auto simp: state_add_ruleset_def commit_def dest: pruned_add_ruleset split: sum.splits)
  show "pruned (snd (state_delete_rule org_id postfix ruleset_id rule_id None file))" if "\<not> endswith rule_id postfix"
    using assms that
    by (simp add: state_delete_rule_def commit_def pruned_delete_rule)
qed

lemma pruning_preserved_example:
  "pruned doc1
   \<and> pruned (snd (state_delete_organization ''org1'' None None doc1))
   \<and> pruned (snd (state_delete_ruleset ''org1'' ''-localonly'' ''rs1'' None doc1))
   \<and> pruned (snd (state_add_rule ''org1'' ''rs1'' ''r1'' Rule None doc1))
   \<and> RsTrue \<noteq> RsFalse
   \<and> pruned (snd (state_add_ruleset ''org1'' ''rs1'' RsTrue None doc1))
   \<and> \<not> endswith ''r1'' ''-localonly''
   \<and> pruned (snd (state_delete_rule ''org1'' ''-localonly'' ''rs1'' ''r1'' None doc1))"
proof -
  have p: "pruned doc1" by (simp add: pruned_def doc1_def)
  have a: "RsTrue \<noteq> RsFalse" by simp
  have b: "\<not> endswith ''r1'' ''-localonly''" by (simp add: endswith_def)
  from pruning_preserved [OF p, of "''org1''" None "''-localonly''" "''rs1''" "''r1''" Rule RsTrue] p a b
  show ?thesis by blast
qed

text \<open>
  C7. The code does not keep the pruning invariant on every committed write:
  \<^verbatim>\<open>_state_delete_rule\<close> on a tracked rule whose identifier carries the local-only postfix pops
  the rule and writes the ruleset entry as that leaves it. After \<^verbatim>\<open>create_rule\<close> on a ruleset
  that exists remotely and was not tracked (the committed \<^verbatim>\<open>_state_add_rule\<close> with endpoint
  \<open>both\<close>), \<^verbatim>\<open>delete_rule\<close> of the new rule (the committed \<^verbatim>\<open>_state_delete_rule\<close>) writes the
  entry of the ruleset with an empty \<^verbatim>\<open>ruleIds\<close> and \<^verbatim>\<open>modified\<close> \<open>false\<close>, under an organization
  entry that holds nothing else. The sibling \<^verbatim>\<open>_state_delete_ruleset\<close> prunes in the same
  situation: deleting the local-only ruleset that \<^verbatim>\<open>create_ruleset\<close> added removes the ruleset
  entry and the organization entry.
\<close>

theorem delete_rule_leaves_empty_entry:
  "state_add_rule ''org1'' ''rs1'' ''u1-localonly'' Both None empty_doc
     = (Inr None, doc_rule_created)
   \<and> state_delete_rule ''org1'' ''-localonly'' ''rs1'' ''u1-localonly'' None doc_rule_created
     = (Inr None, doc_rule_deleted)
   \<and> tracked_ruleset doc_rule_deleted ''org1'' ''rs1'' = Some \<lparr>modified = RsFalse, ruleIds = []\<rparr>
   \<and> state_delete_ruleset ''org1'' ''-localonly'' ''x1-localonly'' None doc_ruleset_created
     = (Inr None, empty_doc)"
  by code_simp

text \<open>In the terms of the invariant: the document read satisfies it, the document written does not.\<close>

lemma delete_rule_breaks_pruning: "pruned doc_rule_created \<and> \<not> pruned doc_rule_deleted"
  by (simp add: pruned_def doc_rule_created_def doc_rule_deleted_def)

section \<open>Runs on the example worlds\<close>

text \<open>
  C8 fails on the code. \<^verbatim>\<open>push\<close> on a local-only ruleset with one local-only rule, the remote
  accepting the ruleset and the rule and failing on the tags: the rule directory has been renamed
  to the identifier the remote assigned, and the state file written at the end still tracks the
  rule under its local-only identifier with status \<open>tags\<close>, a directory that is not on disk.
\<close>

theorem push_tags_failure_orphans_entry:
  "push remote_tags_fail ''org1'' ''-localonly'' world1 = Inr world1_tags_failed
   \<and> tracked_rule (state_file world1_tags_failed) ''org1'' ''N1'' ''u1-localonly'' = Some Tags
   \<and> \<not> isdir (org_dir world1_tags_failed) [''N1'', ''u1-localonly'']
   \<and> isdir (org_dir world1_tags_failed) [''N1'', ''R1'']"
  by code_simp

text \<open>
  C1, as stated, fails: on \<open>world2\<close> the first \<^verbatim>\<open>push\<close> completes, its one remote call
  succeeds, and the organization stays in the state file (the rule tracked there is not listed in
  \<^verbatim>\<open>ruleset.json\<close>, so it is never posted and its entry moves to the new ruleset identifier);
  the second \<^verbatim>\<open>push\<close> then writes to the remote.
\<close>

theorem push_twice_writes_again:
  "push remote_ok ''org1'' ''-localonly'' world2 = Inr world2_pushed
   \<and> list_all (clean_call ''-localonly'') (api_log world2_pushed)
   \<and> \<not> localonly_rules_listed ''org1'' ''-localonly'' world2
   \<and> push remote_ok ''org1'' ''-localonly'' world2_pushed = Inr world2_pushed_twice
   \<and> list_ex (\<lambda>x. remote_write (fst x))
        (drop (length (api_log world2_pushed)) (api_log world2_pushed_twice))"
  by code_simp

text \<open>
  C2 fails on the code. When \<^verbatim>\<open>get_rulesets\<close> returns a response with \<^verbatim>\<open>errors\<close>, \<^verbatim>\<open>refresh\<close>
  returns from inside the \<^verbatim>\<open>try\<close> statement: the state file is unchanged, but \<^verbatim>\<open>.remote/\<close>
  is still there and the ruleset stays in \<^verbatim>\<open>.backup/\<close> instead of the organization directory.
\<close>

theorem refresh_errors_response_not_restored:
  "refresh remote_errors ''org1'' world4 = Inr world4_abandoned
   \<and> isdir (org_dir world4) [''rs1'']
   \<and> \<not> isdir (org_dir world4_abandoned) [''rs1'']
   \<and> isdir (org_dir world4_abandoned) [''.remote'']
   \<and> isdir (org_dir world4_abandoned) [''.backup'', ''rs1'']"
  by code_simp

text \<open>
  C9 fails on the code. \<^verbatim>\<open>create_ruleset\<close> returns the identifier of the new ruleset, a string;
  decorated and in eager mode (\<open>lazy_eval\<close> false), \<^verbatim>\<open>res.push()\<close> is then looked up on that
  string and raises \<^verbatim>\<open>AttributeError\<close>: no \<^verbatim>\<open>push\<close> of the engine runs.
\<close>

theorem eager_create_ruleset_raises:
  "create_ruleset no_files uuid_seq ''org1'' ''-localonly'' (PyJson (ruleset_json1 []), None) process3
     = Some (Inr (RetStr ''u-localonly'', process3_created))
   \<and> lazy False (push_self remote_ok ''org1'' ''-localonly'')
        (create_ruleset no_files uuid_seq ''org1'' ''-localonly'')
        (PyJson (ruleset_json1 []), None) process3
     = Some (Inl AttributeError)"
  by code_simp

section \<open>String arguments of \<^verbatim>\<open>create_ruleset\<close> and \<^verbatim>\<open>create_rule\<close>\<close>

lemma uniquify_str: "uniquify occurs p (PyStr s) = Some (Inl TypeError)"
  by (subst uniquify.simps) (simp add: data_name_def)

text \<open>
  C10. For every string \<open>s\<close> the test \<^verbatim>\<open>s is str\<close> is false; whatever the files outside the
  organization directory hold (\<open>ext\<close>), \<^verbatim>\<open>create_ruleset\<close> and \<^verbatim>\<open>create_rule\<close> take a string
  given for \<^verbatim>\<open>ruleset_data\<close>, \<^verbatim>\<open>rule_data\<close> or \<^verbatim>\<open>tags_data\<close> as the data itself and read no file.
  (With a string for the ruleset or the rule, \<^verbatim>\<open>data['name']\<close> then raises \<^verbatim>\<open>TypeError\<close>.)
\<close>

theorem string_arguments_are_payloads:
  "\<not> is_str (PyStr s)
   \<and> create_ruleset_payload ext (PyStr s) = Inr (PyStr s)
   \<and> create_rule_payload ext (PyStr s) (PyStr t) = Inr (PyStr s, PyStr t)
   \<and> create_rule_payload ext (PyJson c) (PyStr t) = Inr (PyJson c, PyStr t)
   \<and> create_ruleset ext uuid4 org_id postfix (PyStr s, name_postfix) ps = Some (Inl TypeError)
   \<and> create_rule ext uuid4 org_id postfix (ruleset_id, PyStr s, PyStr t, name_postfix) ps
        = Some (Inl TypeError)"
  by (simp add: is_str_def create_ruleset_payload_def create_rule_payload_def create_ruleset_def
      create_rule_def uniquify_str)


section \<open>Files and directories\<close>

lemma node_at_top: "node_at d [k] = (case d of Dir kids \<Rightarrow> map_of kids k | File c \<Rightarrow> None)"
  by (cases d) (auto split: option.splits)

lemma node_at_Cons: "node_at d (k # p) = (case node_at d [k] of None \<Rightarrow> None | Some c \<Rightarrow> node_at c p)"
  by (cases d) (auto split: option.splits)


lemma modify_top:
  assumes "modify_at [k] f d = Inr d'"
  shows "\<exists>v. f (node_at d [k]) = Inr v \<and> node_at d' [k] = v
           \<and> (\<forall>m. m \<noteq> k \<longrightarrow> node_at d' [m] = node_at d [m])"
  using assms
  by (cases d) (auto simp: update_conv' delete_conv' split: sum.splits option.splits)

lemma modify_deep:
  assumes "modify_at (k # k' # ks) f d = Inr d'"
  shows "\<exists>c c'. node_at d [k] = Some c \<and> modify_at (k' # ks) f c = Inr c' \<and> node_at d' [k] = Some c'
           \<and> (\<forall>m. m \<noteq> k \<longrightarrow> node_at d' [m] = node_at d [m])"
  using assms
  by (cases d) (auto simp: update_conv' split: sum.splits option.splits)

lemma modify_top_ok:
  "node_at d [] = Some (Dir kids) \<Longrightarrow> f (map_of kids k) = Inr v \<Longrightarrow> \<exists>d'. modify_at [k] f d = Inr d'"
  by (cases d) (auto split: option.splits)



text \<open>rename\<close>

lemma rename_up:
  assumes "rename [r, n] [n] d = Inr d'" and "n \<noteq> r"
  shows "\<exists>x. node_at d [r, n] = Some x \<and> node_at d' [n] = Some x
           \<and> (\<forall>m. m \<noteq> n \<longrightarrow> m \<noteq> r \<longrightarrow> node_at d' [m] = node_at d [m])
           \<and> node_at d' [r, n] = None
           \<and> (\<forall>m. m \<noteq> n \<longrightarrow> node_at d' [r, m] = node_at d [r, m])
           \<and> (isdir d [r] \<longrightarrow> isdir d' [r])"
proof -
  from assms obtain x d1 where x: "node_at d [r, n] = Some x"
    and d1: "modify_at [r, n] (\<lambda>old. Inr None) d = Inr d1"
    and d': "modify_at [n] (\<lambda>old. Inr (Some x)) d1 = Inr d'"
    by (auto simp: rename_def split: option.splits sum.splits)
  from modify_deep [OF d1] obtain c c' where c: "node_at d [r] = Some c"
    and c': "modify_at [n] (\<lambda>old. Inr None) c = Inr c'" and r1: "node_at d1 [r] = Some c'"
    and o1: "\<forall>m. m \<noteq> r \<longrightarrow> node_at d1 [m] = node_at d [m]" by blast
  from modify_top [OF c'] have c'n: "node_at c' [n] = None"
    and c'o: "\<forall>m. m \<noteq> n \<longrightarrow> node_at c' [m] = node_at c [m]" by auto
  from modify_top [OF d'] have d'n: "node_at d' [n] = Some x"
    and d'o: "\<forall>m. m \<noteq> n \<longrightarrow> node_at d' [m] = node_at d1 [m]" by auto
  have dir: "isdir d [r] \<longrightarrow> isdir d' [r]"
    using c' d'o assms(2) r1 c
    by (cases c) (auto simp: isdir_def split: sum.splits option.splits)
  show ?thesis
    using x d'n d'o o1 r1 c c'n c'o assms(2) dir
    by (auto simp: node_at_Cons [of _ r "[_]"])
qed

lemma modify_frame:
  assumes "modify_at (k # ks) f d = Inr d'" and "m \<noteq> k"
  shows "node_at d' [m] = node_at d [m]"
proof (cases ks)
  case Nil
  with assms modify_top [of k f d d'] show ?thesis by auto
next
  case (Cons k' ks')
  with assms modify_deep [of k k' ks' f d d'] show ?thesis by auto
qed

lemma mkdir_frame: "mkdir (k # ks) d = Inr d' \<Longrightarrow> m \<noteq> k \<Longrightarrow> node_at d' [m] = node_at d [m]"
  unfolding mkdir_def by (rule modify_frame)

lemma write_json_frame:
  "write_json (k # ks) c d = Inr d' \<Longrightarrow> m \<noteq> k \<Longrightarrow> node_at d' [m] = node_at d [m]"
  unfolding write_json_def by (rule modify_frame)

lemma rmtree_top:
  "rmtree [k] d = Inr d' \<Longrightarrow> node_at d' [k] = None \<and> (\<forall>m. m \<noteq> k \<longrightarrow> node_at d' [m] = node_at d [m])"
  unfolding rmtree_def
  by (drule modify_top) (auto split: option.splits node.splits)

lemma rename_down:
  assumes "rename [n] (b # q) d = Inr d'" and "q \<noteq> []" and "n \<noteq> b"
  shows "node_at d' [n] = None \<and> (\<forall>m. m \<noteq> n \<longrightarrow> m \<noteq> b \<longrightarrow> node_at d' [m] = node_at d [m])"
proof -
  from assms obtain x d1 where d1: "modify_at [n] (\<lambda>old. Inr None) d = Inr d1"
    and d': "modify_at (b # q) (\<lambda>old. Inr (Some x)) d1 = Inr d'"
    by (auto simp: rename_def split: option.splits sum.splits)
  from modify_top [OF d1] have 1: "node_at d1 [n] = None"
    and 2: "\<forall>m. m \<noteq> n \<longrightarrow> node_at d1 [m] = node_at d [m]" by auto
  from modify_frame [OF d'] have 3: "\<forall>m. m \<noteq> b \<longrightarrow> node_at d' [m] = node_at d1 [m]" by blast
  from 1 2 3 assms(3) show ?thesis by auto
qed

lemma move_to_backup:
  assumes "move [n] [b, n] d = Inr d'" and "n \<noteq> b"
  shows "node_at d' [n] = None \<and> (\<forall>m. m \<noteq> n \<longrightarrow> m \<noteq> b \<longrightarrow> node_at d' [m] = node_at d [m])"
  using assms 
  by (auto simp: move_def split: option.splits node.splits if_splits dest!: rename_down)

lemma backup_loop:
  assumes "for_each (\<lambda>ruleset. if ruleset \<noteq> b \<and> ruleset \<noteq> r then move [ruleset] [b, ruleset] else Inr)
             names d = Inr d'"
  shows "\<forall>k. k \<noteq> b \<longrightarrow> k \<noteq> r \<longrightarrow> (k \<in> set names \<or> node_at d [k] = None) \<longrightarrow> node_at d' [k] = None"
  using assms
proof (induction names arbitrary: d)
  case Nil
  then show ?case by simp
next
  case (Cons n names)
  show ?case
  proof (cases "n \<noteq> b \<and> n \<noteq> r")
    case True
    with Cons.prems obtain d1 where m: "move [n] [b, n] d = Inr d1"
      and rest: "for_each (\<lambda>ruleset. if ruleset \<noteq> b \<and> ruleset \<noteq> r then move [ruleset] [b, ruleset] else Inr) names d1 = Inr d'"
      by (auto split: sum.splits)
    from move_to_backup [OF m] True have 1: "node_at d1 [n] = None"
      and 2: "\<forall>m. m \<noteq> n \<longrightarrow> m \<noteq> b \<longrightarrow> node_at d1 [m] = node_at d [m]" by auto
    from Cons.IH [OF rest] 1 2 show ?thesis by (metis set_ConsD)
  next
    case False
    with Cons.prems have rest: "for_each (\<lambda>ruleset. if ruleset \<noteq> b \<and> ruleset \<noteq> r then move [ruleset] [b, ruleset] else Inr) names d = Inr d'"
      by (auto split: sum.splits)
    from Cons.IH [OF rest] False show ?thesis by auto
  qed
qed

lemma keys_map_of: "k \<in> fst ` set xs \<longleftrightarrow> (\<exists>y. map_of xs k = Some y)"
  using map_of_eq_None_iff [of xs k] by auto

lemma listdir_top: "listdir d [] = Inr names \<Longrightarrow> k \<notin> set names \<Longrightarrow> node_at d [k] = None"
  by (cases d) (auto simp: listdir_def keys_map_of split: option.splits)

lemma listdir_sub:
  "listdir d [r] = Inr names \<Longrightarrow> (k \<in> set names \<longleftrightarrow> node_at d [r, k] \<noteq> None) \<and> isdir d [r]"
  by (cases d) (auto simp: listdir_def isdir_def keys_map_of split: option.splits node.splits)

lemma prepare_only_staging:
  assumes "refresh_prepare d0 = Inr d"
  shows "\<forall>k. k \<noteq> ''.backup'' \<longrightarrow> k \<noteq> ''.remote'' \<longrightarrow> node_at d [k] = None"
proof -
  from assms obtain d4 names where l: "listdir d4 [] = Inr names"
    and loop: "for_each (\<lambda>ruleset. if ruleset \<noteq> ''.backup'' \<and> ruleset \<noteq> ''.remote''
                        then move [ruleset] [''.backup'', ruleset] else Inr) names d4 = Inr d"
    unfolding refresh_prepare_def by (auto split: sum.splits)
  from backup_loop [OF loop] listdir_top [OF l] show ?thesis by blast
qed

section \<open>refresh\<close>

lemma fetch_rule_frame:
  assumes "fetch_rule remote rs rule acc = Inr acc'" and "m \<noteq> ''.remote''"
  shows "node_at (fst acc') [m] = node_at (fst acc) [m]"
  using assms
  by (auto simp: fetch_rule_def Let_def split: if_splits sum.splits
      dest!: mkdir_frame [where m = m] write_json_frame [where m = m])

lemma for_each_frame:
  assumes "for_each body xs acc = Inr acc'"
    and "\<And>x a a'. body x a = Inr a' \<Longrightarrow> P a' = P a"
  shows "P acc' = P acc"
  using assms(1)
proof (induction xs arbitrary: acc)
  case Nil
  then show ?case by simp
next
  case (Cons x xs)
  then obtain a1 where 1: "body x acc = Inr a1" and 2: "for_each body xs a1 = Inr acc'"
    by (auto split: sum.splits)
  from Cons.IH [OF 2] assms(2) [OF 1] show ?case by simp
qed

lemma fetch_ruleset_frame:
  assumes "fetch_ruleset remote ruleset acc = Inr acc'" and "m \<noteq> ''.remote''"
  shows "node_at (fst acc') [m] = node_at (fst acc) [m]"
proof -
  from assms(1) obtain d1 d2 rules lg1 where 1: "mkdir [''.remote'', rr_id ruleset] (fst acc) = Inr d1"
    and 2: "write_json [''.remote'', rr_id ruleset, ''ruleset.json''] (RulesetJson (rr_data ruleset)) d1 = Inr d2"
    and 3: "for_each (fetch_rule remote (rr_id ruleset)) rules (d2, lg1) = Inr acc'"
    by (auto simp: fetch_ruleset_def Let_def split: if_splits sum.splits response.splits)
  have "node_at (fst acc') [m] = node_at (fst (d2, lg1)) [m]"
    by (rule for_each_frame [OF 3]) (rule fetch_rule_frame [OF _ assms(2)])
  with mkdir_frame [OF 1 assms(2)] write_json_frame [OF 2 assms(2)] show ?thesis by simp
qed

lemma fetch_frame:
  assumes "fetch remote d lg = Fetched d1 lg1" and "m \<noteq> ''.remote''"
  shows "node_at d1 [m] = node_at d [m]"
proof -
  from assms(1) obtain rulesets lg0 acc where 1: "for_each (fetch_ruleset remote) rulesets (d, lg0) = Inr acc"
    and 2: "d1 = fst acc"
    by (auto simp: fetch_def Let_def split: response.splits sum.splits)
  have "node_at (fst acc) [m] = node_at (fst (d, lg0)) [m]"
    by (rule for_each_frame [OF 1]) (rule fetch_ruleset_frame [OF _ assms(2)])
  with 2 show ?thesis by simp
qed

lemma move_up:
  assumes "move [r, n] [n] d = Inr d'" and "isdir d [r]" and "node_at d [n] = None \<or> n = r"
  shows "n \<noteq> r \<and> (\<exists>x. node_at d [r, n] = Some x \<and> node_at d' [n] = Some x)
           \<and> (\<forall>m. m \<noteq> n \<longrightarrow> m \<noteq> r \<longrightarrow> node_at d' [m] = node_at d [m])
           \<and> node_at d' [r, n] = None
           \<and> (\<forall>m. m \<noteq> n \<longrightarrow> node_at d' [r, m] = node_at d [r, m])
           \<and> isdir d' [r]"
proof -
  have nr: "n \<noteq> r"
  proof
    assume "n = r"
    with assms(1,2) show False
      by (auto simp: move_def isdir_def split: option.splits node.splits if_splits)
  qed
  with assms(3) have "node_at d [n] = None" by simp
  with assms(1) have "rename [r, n] [n] d = Inr d'"
    by (auto simp: move_def split: option.splits)
  from rename_up [OF this nr] nr assms(2) show ?thesis by auto
qed

lemma install_loop:
  assumes "for_each (\<lambda>ruleset. move [r, ruleset] [ruleset]) names d = Inr d'"
    and "\<forall>k. k \<noteq> b \<longrightarrow> k \<noteq> r \<longrightarrow> k \<notin> M \<longrightarrow> node_at d [k] = None"
    and "\<forall>n \<in> M. node_at d [r, n] = None"
    and "isdir d [r]"
    and "b \<notin> set names"
  shows "r \<notin> set names
       \<and> (\<forall>n \<in> set names. node_at d [r, n] \<noteq> None \<and> node_at d' [n] = node_at d [r, n])
       \<and> (\<forall>k. k \<notin> set names \<longrightarrow> k \<noteq> r \<longrightarrow> node_at d' [k] = node_at d [k])"
  using assms
proof (induction names arbitrary: d M)
  case Nil
  then show ?case by simp
next
  case (Cons n names)
  from Cons.prems(1) obtain d1 where m: "move [r, n] [n] d = Inr d1"
    and rest: "for_each (\<lambda>ruleset. move [r, ruleset] [ruleset]) names d1 = Inr d'"
    by (auto split: sum.splits)
  have nb: "n \<noteq> b" using Cons.prems(5) by auto
  have src: "node_at d [r, n] \<noteq> None"
    using m by (auto simp: move_def split: option.splits)
  with Cons.prems(3) have nM: "n \<notin> M" by auto
  with Cons.prems(2) nb have "node_at d [n] = None \<or> n = r" by auto
  from move_up [OF m Cons.prems(4) this]
  obtain x where nr: "n \<noteq> r" and x: "node_at d [r, n] = Some x" and x': "node_at d1 [n] = Some x"
    and o: "\<forall>m. m \<noteq> n \<longrightarrow> m \<noteq> r \<longrightarrow> node_at d1 [m] = node_at d [m]"
    and gone: "node_at d1 [r, n] = None"
    and sub: "\<forall>m. m \<noteq> n \<longrightarrow> node_at d1 [r, m] = node_at d [r, m]"
    and dir: "isdir d1 [r]" by blast
  have h2: "\<forall>k. k \<noteq> b \<longrightarrow> k \<noteq> r \<longrightarrow> k \<notin> insert n M \<longrightarrow> node_at d1 [k] = None"
    using o Cons.prems(2) by (metis insertCI)
  have h3: "\<forall>n' \<in> insert n M. node_at d1 [r, n'] = None"
    using gone sub Cons.prems(3) by (metis insertE)
  have h5: "b \<notin> set names" using Cons.prems(5) by auto
  from Cons.IH [OF rest h2 h3 dir h5]
  have a: "r \<notin> set names"
    and bb: "\<forall>n' \<in> set names. node_at d1 [r, n'] \<noteq> None \<and> node_at d' [n'] = node_at d1 [r, n']"
    and c: "\<forall>k. k \<notin> set names \<longrightarrow> k \<noteq> r \<longrightarrow> node_at d' [k] = node_at d1 [k]" by auto
  from bb gone have nn: "n \<notin> set names" by blast
  have 1: "r \<notin> set (n # names)" using a nr by auto
  have 2: "\<forall>n' \<in> set (n # names). node_at d [r, n'] \<noteq> None \<and> node_at d' [n'] = node_at d [r, n']"
  proof
    fix n' assume "n' \<in> set (n # names)"
    then consider "n' = n" | "n' \<in> set names" "n' \<noteq> n" using nn by auto
    then show "node_at d [r, n'] \<noteq> None \<and> node_at d' [n'] = node_at d [r, n']"
    proof cases
      case 1
      with c nn nr x x' show ?thesis by simp
    next
      case 2
      with bb sub show ?thesis by metis
    qed
  qed
  have 3: "\<forall>k. k \<notin> set (n # names) \<longrightarrow> k \<noteq> r \<longrightarrow> node_at d' [k] = node_at d [k]"
    using c o by simp
  from 1 2 3 show ?case by blast
qed

lemma install_spec:
  assumes inst: "refresh_install d = Inr d'"
    and only: "\<forall>k. k \<noteq> ''.backup'' \<longrightarrow> k \<noteq> ''.remote'' \<longrightarrow> node_at d [k] = None"
    and nb: "node_at d [''.remote'', ''.backup''] = None"
  shows "\<forall>n. node_at d' [n] = node_at d [''.remote'', n]"
proof -
  from inst obtain names d1 d2 where l: "listdir d [''.remote''] = Inr names"
    and loop: "for_each (\<lambda>ruleset. move [''.remote'', ruleset] [ruleset]) names d = Inr d1"
    and r1: "rmtree [''.backup''] d1 = Inr d2" and r2: "rmtree [''.remote''] d2 = Inr d'"
    unfolding refresh_install_def by (auto split: sum.splits)
  note ls = listdir_sub [OF l]
  from ls nb have bn: "''.backup'' \<notin> set names" by blast
  from ls have dir: "isdir d [''.remote'']" by blast
  have h2: "\<forall>k. k \<noteq> ''.backup'' \<longrightarrow> k \<noteq> ''.remote'' \<longrightarrow> k \<notin> {} \<longrightarrow> node_at d [k] = None"
    using only by blast
  have h3: "\<forall>n \<in> {}. node_at d [''.remote'', n] = None" by simp
  from install_loop [OF loop h2 h3 dir bn]
  have a: "''.remote'' \<notin> set names"
    and b: "\<forall>n \<in> set names. node_at d1 [n] = node_at d [''.remote'', n]"
    and c: "\<forall>k. k \<notin> set names \<longrightarrow> k \<noteq> ''.remote'' \<longrightarrow> node_at d1 [k] = node_at d [k]" by auto
  from rmtree_top [OF r1] have d2b: "node_at d2 [''.backup''] = None"
    and d2o: "\<forall>m. m \<noteq> ''.backup'' \<longrightarrow> node_at d2 [m] = node_at d1 [m]" by auto
  from rmtree_top [OF r2] have d'r: "node_at d' [''.remote''] = None"
    and d'o: "\<forall>m. m \<noteq> ''.remote'' \<longrightarrow> node_at d' [m] = node_at d2 [m]" by auto
  show ?thesis
  proof
    fix n
    show "node_at d' [n] = node_at d [''.remote'', n]"
    proof (cases "n \<in> set names")
      case True
      with a bn have "n \<noteq> ''.remote''" "n \<noteq> ''.backup''" by auto
      with True b d2o d'o show ?thesis by simp
    next
      case False
      with ls [of n] have none: "node_at d [''.remote'', n] = None" by simp
      show ?thesis
      proof (cases "n = ''.remote''")
        case True
        with d'r none show ?thesis by simp
      next
        case nr: False
        show ?thesis
        proof (cases "n = ''.backup''")
          case True
          with d'o d2b none show ?thesis by simp
        next
          case nbk: False
          with nr False c d2o d'o only none show ?thesis by simp
        qed
      qed
    qed
  qed
qed

text \<open>
  C3. A \<^verbatim>\<open>refresh\<close> whose \<^verbatim>\<open>try\<close> body runs to its end (all rulesets, rules and tags fetched,
  no exception, no early return), none of the fetched rulesets being named \<^verbatim>\<open>.backup\<close>, and that
  returns: afterwards the children of the organization directory are exactly what \<^verbatim>\<open>.remote/\<close>
  held after the fetch, each under its own name; neither \<^verbatim>\<open>.backup\<close> nor \<^verbatim>\<open>.remote\<close> is left;
  the organization is absent from the state file.
\<close>

theorem refresh_success:
  assumes prep: "refresh_prepare (org_dir w) = Inr d"
    and fetched: "fetch remote d (api_log w) = Fetched d1 lg"
    and nb: "node_at d1 [''.remote'', ''.backup''] = None"
    and ret: "refresh remote org_id w = Inr w'"
  shows "(\<forall>n. node_at (org_dir w') [n] = node_at d1 [''.remote'', n])
       \<and> node_at (org_dir w') [''.backup''] = None
       \<and> node_at (org_dir w') [''.remote''] = None
       \<and> map_of (organizations (state_file w')) org_id = None"
proof -
  from ret prep fetched obtain d2 sf where inst: "refresh_install d1 = Inr d2"
    and w': "w' = \<lparr>state_file = sf, org_dir = d2, api_log = lg\<rparr>"
    and fl: "sf = snd (state_delete_organization org_id (Some org_id) None (state_file w))"
    by (auto simp: refresh_def split: sum.splits prod.splits)
  from prepare_only_staging [OF prep] fetch_frame [OF fetched]
  have only: "\<forall>k. k \<noteq> ''.backup'' \<longrightarrow> k \<noteq> ''.remote'' \<longrightarrow> node_at d1 [k] = None" by simp
  from install_spec [OF inst only nb] have all: "\<forall>n. node_at d2 [n] = node_at d1 [''.remote'', n]" .
  from inst obtain d3 where "rmtree [''.remote''] d3 = Inr d2" 
    unfolding refresh_install_def by (auto split: sum.splits)
  from rmtree_top [OF this] have r: "node_at d2 [''.remote''] = None" by simp
  have st: "map_of (organizations sf) org_id = None"
    unfolding fl
    by (auto simp: state_delete_organization_def commit_def state_delete_organization_body_def
        Let_def pop_org_def delete_conv')
  from all nb r st w' show ?thesis by simp
qed

theorem refresh_success_witness:
  "refresh_prepare (org_dir world4) = Inr world4_prepared
   \<and> fetch remote_ok world4_prepared (api_log world4) = Fetched world4_fetched world4_log
   \<and> node_at world4_fetched [''.remote'', ''.backup''] = None
   \<and> refresh remote_ok ''org1'' world4 = Inr world4_refreshed
   \<and> (\<forall>n. node_at (org_dir world4_refreshed) [n] = node_at world4_fetched [''.remote'', n])
   \<and> node_at (org_dir world4_refreshed) [''.backup''] = None
   \<and> node_at (org_dir world4_refreshed) [''.remote''] = None
   \<and> map_of (organizations (state_file world4_refreshed)) ''org1'' = None"
proof -
  have p: "refresh_prepare (org_dir world4) = Inr world4_prepared" by code_simp
  have f: "fetch remote_ok world4_prepared (api_log world4) = Fetched world4_fetched world4_log"
    by code_simp
  have n: "node_at world4_fetched [''.remote'', ''.backup''] = None" by code_simp
  have r: "refresh remote_ok ''org1'' world4 = Inr world4_refreshed" by code_simp
  from refresh_success [OF p f n r] p f n r show ?thesis by blast
qed


section \<open>push: the turn of a rule that is posted\<close>





section \<open>push: what a fully successful run leaves in the state file\<close>

lemma move_cases:
  assumes "move src dst d = Inr d'"
  shows "d' = d \<or> rename src (dst @ [last src]) d = Inr d' \<or> rename src dst d = Inr d'"
proof (cases "node_at d src")
  case None
  with assms show ?thesis by (simp add: move_def)
next
  case (Some n)
  show ?thesis
  proof (cases "node_at d dst")
    case None
    with Some assms show ?thesis by (simp add: move_def)
  next
    case (Some x)
    show ?thesis
    proof (cases x)
      case (File c)
      with Some \<open>node_at d src = Some n\<close> assms show ?thesis
        by (cases n) (simp_all add: move_def)
    next
      case (Dir kids)
      with Some \<open>node_at d src = Some n\<close> assms show ?thesis
        by (simp add: move_def split: if_splits)
    qed
  qed
qed

lemma rename_frame:
  assumes "rename (k # p) (k # q) d = Inr d'" and "m \<noteq> k"
  shows "node_at d' [m] = node_at d [m]"
proof -
  from assms(1) obtain x d1 where 1: "modify_at (k # p) (\<lambda>old. Inr None) d = Inr d1"
    and 2: "modify_at (k # q) (\<lambda>old. Inr (Some x)) d1 = Inr d'"
    by (auto simp: rename_def split: option.splits sum.splits)
  from modify_frame [OF 1 assms(2)] modify_frame [OF 2 assms(2)] show ?thesis by simp
qed

lemma move_frame:
  assumes "move (k # p) (k # q) d = Inr d'" and "m \<noteq> k"
  shows "node_at d' [m] = node_at d [m]"
  using move_cases [OF assms(1)] assms(2) rename_frame [of k p q d d' m]
    rename_frame [of k p "q @ [last (k # p)]" d d' m]
  by (auto simp del: last.simps)

lemma post_new_rule_effect:
  assumes "post_new_rule remote k target r (ids, s) = Inr (ids', s')"
  shows "\<exists>new. log s' = log s @ new
           \<and> (list_all (clean_call postfix) new \<longrightarrow>
                (\<exists>e. map_of (pending s) k = Some e
                   \<and> pending s' = AList.update k (e\<lparr>ruleIds := AList.delete r (ruleIds e)\<rparr>) (pending s)))
           \<and> (\<forall>m. m \<noteq> k \<longrightarrow> node_at (disk s') [m] = node_at (disk s) [m])"
  using assms
  by (auto simp: post_new_rule_def request_def Let_def set_rule_status_def rule_status_of_def
        pop_rule_def clean_call_def call_succeeded_def update_conv' delete_update_same
      split: sum.splits if_splits option.splits dest: move_frame)

lemma delete_as_filter: "AList.delete k xs = filter (\<lambda>p. fst p \<noteq> k) xs"
  by (induction xs) auto

lemma entry_same: "e\<lparr>ruleIds := ruleIds e\<rparr> = e"
  by simp

lemma post_new_rules_effect:
  assumes "for_each (post_new_rule remote k target) rs acc = Inr acc'"
  shows "\<exists>new. log (snd acc') = log (snd acc) @ new
           \<and> (list_all (clean_call postfix) new \<longrightarrow>
                (\<forall>e. map_of (pending (snd acc)) k = Some e \<longrightarrow>
                   pending (snd acc') =
                     AList.update k (e\<lparr>ruleIds := filter (\<lambda>p. fst p \<notin> set rs) (ruleIds e)\<rparr>)
                       (pending (snd acc))))
           \<and> (\<forall>m. m \<noteq> k \<longrightarrow> node_at (disk (snd acc')) [m] = node_at (disk (snd acc)) [m])"
  using assms
proof (induction rs arbitrary: acc)
  case Nil
  then show ?case by (auto simp: update_triv)
next
  case (Cons r rs)
  from Cons.prems obtain acc1 where 1: "post_new_rule remote k target r acc = Inr acc1"
    and 2: "for_each (post_new_rule remote k target) rs acc1 = Inr acc'"
    by (auto split: sum.splits)
  from post_new_rule_effect [of remote k target r "fst acc" "snd acc" "fst acc1" "snd acc1" postfix] 1
  obtain new1 where l1: "log (snd acc1) = log (snd acc) @ new1"
    and p1: "list_all (clean_call postfix) new1 \<longrightarrow>
                (\<exists>e. map_of (pending (snd acc)) k = Some e
                   \<and> pending (snd acc1) = AList.update k (e\<lparr>ruleIds := AList.delete r (ruleIds e)\<rparr>) (pending (snd acc)))"
    and f1: "\<forall>m. m \<noteq> k \<longrightarrow> node_at (disk (snd acc1)) [m] = node_at (disk (snd acc)) [m]"
    by auto
  from Cons.IH [OF 2] obtain new2 where l2: "log (snd acc') = log (snd acc1) @ new2"
    and p2: "list_all (clean_call postfix) new2 \<longrightarrow>
                (\<forall>e. map_of (pending (snd acc1)) k = Some e \<longrightarrow>
                   pending (snd acc') =
                     AList.update k (e\<lparr>ruleIds := filter (\<lambda>p. fst p \<notin> set rs) (ruleIds e)\<rparr>)
                       (pending (snd acc1)))"
    and f2: "\<forall>m. m \<noteq> k \<longrightarrow> node_at (disk (snd acc')) [m] = node_at (disk (snd acc1)) [m]"
    by auto
  have "log (snd acc') = log (snd acc) @ (new1 @ new2)" using l1 l2 by simp
  moreover have "list_all (clean_call postfix) (new1 @ new2) \<longrightarrow>
                (\<forall>e. map_of (pending (snd acc)) k = Some e \<longrightarrow>
                   pending (snd acc') =
                     AList.update k (e\<lparr>ruleIds := filter (\<lambda>p. fst p \<notin> set (r # rs)) (ruleIds e)\<rparr>)
                       (pending (snd acc)))"
  proof (intro impI allI)
    fix e assume ok: "list_all (clean_call postfix) (new1 @ new2)"
      and e: "map_of (pending (snd acc)) k = Some e"
    let ?e1 = "e\<lparr>ruleIds := AList.delete r (ruleIds e)\<rparr>"
    from ok p1 e have a1: "pending (snd acc1) = AList.update k ?e1 (pending (snd acc))" by auto
    then have "map_of (pending (snd acc1)) k = Some ?e1" by (simp add: update_conv')
    with ok p2 have "pending (snd acc') =
        AList.update k (?e1\<lparr>ruleIds := filter (\<lambda>p. fst p \<notin> set rs) (ruleIds ?e1)\<rparr>) (pending (snd acc1))"
      by auto
    with a1 show "pending (snd acc') =
        AList.update k (e\<lparr>ruleIds := filter (\<lambda>p. fst p \<notin> set (r # rs)) (ruleIds e)\<rparr>) (pending (snd acc))"
      by (simp add: delete_as_filter conj_commute)
  qed
  moreover have "\<forall>m. m \<noteq> k \<longrightarrow> node_at (disk (snd acc')) [m] = node_at (disk (snd acc)) [m]"
    using f1 f2 by simp
  ultimately show ?case by blast
qed

lemma put_or_post_effect:
  assumes "put_or_post remote c s on_success = Inr s'"
  shows "(s' = s\<lparr>log := log s @ [(c, RaiseURLError)]\<rparr> \<and> remote (log s) c = RaiseURLError)
       \<or> (remote (log s) c \<noteq> RaiseURLError \<and> remote (log s) c \<noteq> RaiseKeyboardInterrupt
            \<and> on_success (s\<lparr>log := log s @ [(c, remote (log s) c)]\<rparr>) = Inr s')"
  using assms by (auto simp: put_or_post_def request_def Let_def split: if_splits)

lemma push_tracked_rule_effect:
  assumes "push_tracked_rule remote k r s = Inr s'"
  shows "\<exists>new. log s' = log s @ new
           \<and> (list_all (clean_call postfix) new \<longrightarrow>
                (\<exists>e. map_of (pending s) k = Some e
                   \<and> pending s' = AList.update k (e\<lparr>ruleIds := AList.delete r (ruleIds e)\<rparr>) (pending s)))
           \<and> disk s' = disk s"
  using assms
  by (auto simp: push_tracked_rule_def rule_status_of_def drop_rule_def pop_rule_def
        set_rule_status_def clean_call_def call_succeeded_def update_conv' delete_update_same
      split: sum.splits option.splits RuleStatus.splits
      dest!: put_or_post_effect)

lemma push_tracked_rules_effect:
  assumes "for_each (push_tracked_rule remote k) rs s = Inr s'"
  shows "\<exists>new. log s' = log s @ new
           \<and> (list_all (clean_call postfix) new \<longrightarrow>
                (\<forall>e. map_of (pending s) k = Some e \<longrightarrow>
                   pending s' =
                     AList.update k (e\<lparr>ruleIds := filter (\<lambda>p. fst p \<notin> set rs) (ruleIds e)\<rparr>)
                       (pending s)))
           \<and> disk s' = disk s"
  using assms
proof (induction rs arbitrary: s)
  case Nil
  then show ?case by (auto simp: update_triv)
next
  case (Cons r rs)
  from Cons.prems obtain s1 where 1: "push_tracked_rule remote k r s = Inr s1"
    and 2: "for_each (push_tracked_rule remote k) rs s1 = Inr s'"
    by (auto split: sum.splits)
  from push_tracked_rule_effect [OF 1, of postfix]
  obtain new1 where l1: "log s1 = log s @ new1"
    and p1: "list_all (clean_call postfix) new1 \<longrightarrow>
                (\<exists>e. map_of (pending s) k = Some e
                   \<and> pending s1 = AList.update k (e\<lparr>ruleIds := AList.delete r (ruleIds e)\<rparr>) (pending s))"
    and f1: "disk s1 = disk s"
    by auto
  from Cons.IH [OF 2] obtain new2 where l2: "log s' = log s1 @ new2"
    and p2: "list_all (clean_call postfix) new2 \<longrightarrow>
                (\<forall>e. map_of (pending s1) k = Some e \<longrightarrow>
                   pending s' =
                     AList.update k (e\<lparr>ruleIds := filter (\<lambda>p. fst p \<notin> set rs) (ruleIds e)\<rparr>)
                       (pending s1))"
    and f2: "disk s' = disk s1"
    by auto
  have "log s' = log s @ (new1 @ new2)" using l1 l2 by simp
  moreover have "list_all (clean_call postfix) (new1 @ new2) \<longrightarrow>
                (\<forall>e. map_of (pending s) k = Some e \<longrightarrow>
                   pending s' =
                     AList.update k (e\<lparr>ruleIds := filter (\<lambda>p. fst p \<notin> set (r # rs)) (ruleIds e)\<rparr>)
                       (pending s))"
  proof (intro impI allI)
    fix e assume ok: "list_all (clean_call postfix) (new1 @ new2)"
      and e: "map_of (pending s) k = Some e"
    let ?e1 = "e\<lparr>ruleIds := AList.delete r (ruleIds e)\<rparr>"
    from ok p1 e have a1: "pending s1 = AList.update k ?e1 (pending s)" by auto
    then have "map_of (pending s1) k = Some ?e1" by (simp add: update_conv')
    with ok p2 have "pending s' =
        AList.update k (?e1\<lparr>ruleIds := filter (\<lambda>p. fst p \<notin> set rs) (ruleIds ?e1)\<rparr>) (pending s1)"
      by auto
    with a1 show "pending s' =
        AList.update k (e\<lparr>ruleIds := filter (\<lambda>p. fst p \<notin> set (r # rs)) (ruleIds e)\<rparr>) (pending s)"
      by (simp add: delete_as_filter conj_commute)
  qed
  moreover have "disk s' = disk s" using f1 f2 by simp
  ultimately show ?case by blast
qed

lemma filter_all_keys: "filter (\<lambda>p. fst p \<notin> set (map fst xs)) xs = []"
  by (induction xs) (auto simp: filter_empty_conv)

lemma push_existing_ruleset_effect:
  assumes run: "push_existing_ruleset remote postfix k rd s = Inr s'"
    and e: "map_of (pending s) k = Some e" and nd: "modified e \<noteq> RsDel"
  shows "\<exists>new. log s' = log s @ new
           \<and> (list_all (clean_call postfix) new \<longrightarrow> pending s' = AList.delete k (pending s))
           \<and> (\<forall>m. m \<noteq> k \<longrightarrow> node_at (disk s') [m] = node_at (disk s) [m])"
proof -
  let ?lo = "filter (\<lambda>rule_id. endswith rule_id postfix) (rs_ruleIds rd)"
  let ?data0 = "rd\<lparr>rs_ruleIds := filter (\<lambda>rule_id. \<not> endswith rule_id postfix) (rs_ruleIds rd)\<rparr>"
  let ?put = "if modified e = RsTrue then
                put_or_post remote (PutRuleset k (RulesetJson ?data0)) s
                  (\<lambda>s1. Inr (s1\<lparr>pending := AList.update k (e\<lparr>modified := RsFalse\<rparr>) (pending s1)\<rparr>))
              else Inr s"
  from run e obtain s2 acc d3 e3 s4 e4 where
    put: "?put = Inr s2"
    and loop1: "for_each (post_new_rule remote k k) ?lo (rs_ruleIds ?data0, s2) = Inr acc"
    and wr: "write_json [k, ''ruleset.json''] (RulesetJson (?data0\<lparr>rs_ruleIds := fst acc\<rparr>)) (disk (snd acc)) = Inr d3"
    and e3: "map_of (pending (snd acc)) k = Some e3"
    and loop2: "for_each (push_tracked_rule remote k) (map fst (ruleIds e3)) ((snd acc)\<lparr>disk := d3\<rparr>) = Inr s4"
    and e4: "map_of (pending s4) k = Some e4"
    and fin: "s' = (if modified e4 = RsFalse \<and> ruleIds e4 = [] then s4\<lparr>pending := AList.delete k (pending s4)\<rparr> else s4)"
    unfolding push_existing_ruleset_def Let_def
    by (auto split: sum.splits option.splits if_splits)
  \<comment> \<open>the update of the ruleset\<close>
  have s2: "\<exists>new. log s2 = log s @ new
     \<and> (list_all (clean_call postfix) new \<longrightarrow> pending s2 = AList.update k (e\<lparr>modified := RsFalse\<rparr>) (pending s))
     \<and> disk s2 = disk s"
  proof (cases "modified e = RsTrue")
    case True
    with put have pp: "put_or_post remote (PutRuleset k (RulesetJson ?data0)) s
                  (\<lambda>s1. Inr (s1\<lparr>pending := AList.update k (e\<lparr>modified := RsFalse\<rparr>) (pending s1)\<rparr>))
                = Inr s2" by simp
    from put_or_post_effect [OF pp] show ?thesis
    proof
      assume "s2 = s\<lparr>log := log s @ [(PutRuleset k (RulesetJson ?data0), RaiseURLError)]\<rparr>
                \<and> remote (log s) (PutRuleset k (RulesetJson ?data0)) = RaiseURLError"
      then have "log s2 = log s @ [(PutRuleset k (RulesetJson ?data0), RaiseURLError)]"
        and "disk s2 = disk s" by simp_all
      then show ?thesis by (auto simp: clean_call_def call_succeeded_def)
    next
      assume a: "remote (log s) (PutRuleset k (RulesetJson ?data0)) \<noteq> RaiseURLError
            \<and> remote (log s) (PutRuleset k (RulesetJson ?data0)) \<noteq> RaiseKeyboardInterrupt
            \<and> Inr ((s\<lparr>log := log s @ [(PutRuleset k (RulesetJson ?data0),
                                            remote (log s) (PutRuleset k (RulesetJson ?data0)))]\<rparr>)
                      \<lparr>pending := AList.update k (e\<lparr>modified := RsFalse\<rparr>)
                         (pending (s\<lparr>log := log s @ [(PutRuleset k (RulesetJson ?data0),
                                            remote (log s) (PutRuleset k (RulesetJson ?data0)))]\<rparr>))\<rparr>)
                = (Inr s2 :: error + run)"
      then have "log s2 = log s @ [(PutRuleset k (RulesetJson ?data0),
                                    remote (log s) (PutRuleset k (RulesetJson ?data0)))]"
        and "pending s2 = AList.update k (e\<lparr>modified := RsFalse\<rparr>) (pending s)"
        and "disk s2 = disk s" by auto
      then show ?thesis by blast
    qed
  next
    case False
    with nd have "modified e = RsFalse" by (cases "modified e") auto
    then have "e\<lparr>modified := RsFalse\<rparr> = e" by simp
    with False put e show ?thesis by (auto simp: update_triv)
  qed
  then obtain new0 where l0: "log s2 = log s @ new0"
    and p0: "list_all (clean_call postfix) new0 \<longrightarrow> pending s2 = AList.update k (e\<lparr>modified := RsFalse\<rparr>) (pending s)"
    and f0: "disk s2 = disk s" by blast
  from post_new_rules_effect [OF loop1, of postfix] obtain new1 where
    l1: "log (snd acc) = log s2 @ new1"
    and p1: "list_all (clean_call postfix) new1 \<longrightarrow>
                (\<forall>e. map_of (pending s2) k = Some e \<longrightarrow>
                   pending (snd acc) =
                     AList.update k (e\<lparr>ruleIds := filter (\<lambda>p. fst p \<notin> set ?lo) (ruleIds e)\<rparr>) (pending s2))"
    and f1: "\<forall>m. m \<noteq> k \<longrightarrow> node_at (disk (snd acc)) [m] = node_at (disk s2) [m]"
    by auto
  from push_tracked_rules_effect [OF loop2, of postfix] obtain new2 where
    l2: "log s4 = log (snd acc) @ new2"
    and p2: "list_all (clean_call postfix) new2 \<longrightarrow>
                (\<forall>e. map_of (pending (snd acc)) k = Some e \<longrightarrow>
                   pending s4 =
                     AList.update k (e\<lparr>ruleIds := filter (\<lambda>p. fst p \<notin> set (map fst (ruleIds e3))) (ruleIds e)\<rparr>)
                       (pending (snd acc)))"
    and f2: "disk s4 = d3"
    by auto
  have lg: "log s' = log s @ (new0 @ new1 @ new2)"
    using fin l0 l1 l2 by (simp split: if_splits)
  have fr: "\<forall>m. m \<noteq> k \<longrightarrow> node_at (disk s') [m] = node_at (disk s) [m]"
    using fin f0 f1 f2 write_json_frame [OF wr] by (simp split: if_splits)
  have pd: "pending s' = AList.delete k (pending s)" if ok: "list_all (clean_call postfix) (new0 @ new1 @ new2)"
  proof -
    let ?e2 = "e\<lparr>modified := RsFalse\<rparr>"
    from ok p0 have a0: "pending s2 = AList.update k ?e2 (pending s)" by simp
    then have m2: "map_of (pending s2) k = Some ?e2" by (simp add: update_conv')
    let ?e3 = "?e2\<lparr>ruleIds := filter (\<lambda>p. fst p \<notin> set ?lo) (ruleIds ?e2)\<rparr>"
    from ok p1 m2 have a1: "pending (snd acc) = AList.update k ?e3 (pending s2)" by simp
    then have "map_of (pending (snd acc)) k = Some ?e3" by (simp add: update_conv')
    with e3 have e3eq: "e3 = ?e3" by simp
    from ok p2 e3 have a2: "pending s4 =
        AList.update k (e3\<lparr>ruleIds := filter (\<lambda>p. fst p \<notin> set (map fst (ruleIds e3))) (ruleIds e3)\<rparr>) (pending (snd acc))"
      by simp
    then have a2': "pending s4 = AList.update k (e3\<lparr>ruleIds := []\<rparr>) (pending (snd acc))"
      by (simp only: filter_all_keys)
    then have "map_of (pending s4) k = Some (e3\<lparr>ruleIds := []\<rparr>)" by (simp add: update_conv')
    with e4 have "e4 = e3\<lparr>ruleIds := []\<rparr>" by simp
    with e3eq have "modified e4 = RsFalse \<and> ruleIds e4 = []" by simp
    with fin have "pending s' = AList.delete k (pending s4)" by simp
    with a2' a1 a0 show ?thesis by (simp add: delete_update_same)
  qed
  from lg fr pd show ?thesis by blast
qed

lemma rename_frame2:
  assumes "rename (a # p) (b # q) d = Inr d'" and "m \<noteq> a" and "m \<noteq> b"
  shows "node_at d' [m] = node_at d [m]"
proof -
  from assms(1) obtain x d1 where 1: "modify_at (a # p) (\<lambda>old. Inr None) d = Inr d1"
    and 2: "modify_at (b # q) (\<lambda>old. Inr (Some x)) d1 = Inr d'"
    by (auto simp: rename_def split: option.splits sum.splits)
  from modify_frame [OF 1 assms(2)] modify_frame [OF 2 assms(3)] show ?thesis by simp
qed

lemma move_frame2:
  assumes "move (a # p) (b # q) d = Inr d'" and "m \<noteq> a" and "m \<noteq> b"
  shows "node_at d' [m] = node_at d [m]"
  using move_cases [OF assms(1)] assms(2,3) rename_frame2 [of a p b q d d' m]
    rename_frame2 [of a p b "q @ [last (a # p)]" d d' m]
  by (auto simp del: last.simps)

lemma read_json_cong:
  "node_at d1 [k] = node_at d [k] \<Longrightarrow> read_json d1 (k # p) = read_json d (k # p)"
  by (simp add: read_json_def node_at_Cons [of _ k p])

lemma filter_listed:
  "list_all (\<lambda>p. fst p \<in> set ids) xs \<Longrightarrow> filter (\<lambda>p. fst p \<notin> set ids) xs = []"
  by (induction xs) auto

lemma push_localonly_ruleset_effect:
  assumes run: "push_localonly_ruleset remote k rd s = Inr s'"
    and e: "map_of (pending s) k = Some e"
  shows "\<exists>new. log s' = log s @ new
           \<and> (list_all (clean_call postfix) new \<longrightarrow>
                list_all (\<lambda>p. fst p \<in> set (rs_ruleIds rd)) (ruleIds e) \<longrightarrow>
                pending s' = AList.delete k (pending s)
                \<and> (\<forall>m. m \<noteq> k \<longrightarrow> endswith m postfix \<longrightarrow>
                      node_at (disk s') [m] = node_at (disk s) [m]))"
proof -
  let ?c0 = "PostRuleset (RulesetJson (rd\<lparr>rs_ruleIds := []\<rparr>))"
  let ?r = "remote (log s) ?c0"
  let ?s1 = "s\<lparr>log := log s @ [(?c0, ?r)]\<rparr>"
  show ?thesis
  proof (cases "?r = RaiseURLError")
    case True
    with run have "s' = ?s1"
      by (simp add: push_localonly_ruleset_def request_def Let_def)
    then have "log s' = log s @ [(?c0, ?r)]" by simp
    with True show ?thesis by (auto simp: clean_call_def call_succeeded_def)
  next
    case False
    with run obtain N acc d1 d2 e' where
      id: "resp_id ?r = Inr N"
      and loop: "for_each (post_new_rule remote k N) (rs_ruleIds rd) ([], ?s1) = Inr acc"
      and mv: "move [k] [N] (disk (snd acc)) = Inr d1"
      and wr: "write_json [N, ''ruleset.json''] (RulesetJson (rd\<lparr>rs_ruleIds := fst acc\<rparr>)) d1 = Inr d2"
      and e': "map_of (pending (snd acc)) k = Some e'"
      and fin: "s' = (if ruleIds e' = []
                      then (snd acc)\<lparr>pending := AList.delete k (pending (snd acc)), disk := d2\<rparr>
                      else (snd acc)\<lparr>pending := AList.delete k (AList.update N e' (pending (snd acc))),
                                      disk := d2\<rparr>)"
      unfolding push_localonly_ruleset_def request_def Let_def
      by (auto split: sum.splits option.splits if_splits)
    from id have rN: "?r = RespId N" by (auto simp: resp_id_def split: response.splits)
    from post_new_rules_effect [OF loop, of postfix] obtain new1 where
      l1: "log (snd acc) = log ?s1 @ new1"
      and p1: "list_all (clean_call postfix) new1 \<longrightarrow>
                (\<forall>e. map_of (pending ?s1) k = Some e \<longrightarrow>
                   pending (snd acc) =
                     AList.update k (e\<lparr>ruleIds := filter (\<lambda>p. fst p \<notin> set (rs_ruleIds rd)) (ruleIds e)\<rparr>)
                       (pending ?s1))"
      and f1: "\<forall>m. m \<noteq> k \<longrightarrow> node_at (disk (snd acc)) [m] = node_at (disk ?s1) [m]"
      by auto
    have lg: "log s' = log s @ ((?c0, ?r) # new1)" using fin l1 by (simp split: if_splits)
    have main: "pending s' = AList.delete k (pending s)
                \<and> (\<forall>m. m \<noteq> k \<longrightarrow> endswith m postfix \<longrightarrow>
                      node_at (disk s') [m] = node_at (disk s) [m])"
      if ok: "list_all (clean_call postfix) ((?c0, ?r) # new1)"
        and li: "list_all (\<lambda>p. fst p \<in> set (rs_ruleIds rd)) (ruleIds e)"
    proof -
      from ok rN have nN: "\<not> endswith N postfix" by (simp add: clean_call_def)
      from ok p1 e have a1: "pending (snd acc) =
           AList.update k (e\<lparr>ruleIds := filter (\<lambda>p. fst p \<notin> set (rs_ruleIds rd)) (ruleIds e)\<rparr>) (pending s)"
        by simp
      with li have a1': "pending (snd acc) = AList.update k (e\<lparr>ruleIds := []\<rparr>) (pending s)"
        by (simp add: filter_listed)
      then have "map_of (pending (snd acc)) k = Some (e\<lparr>ruleIds := []\<rparr>)" by (simp add: update_conv')
      with e' have "ruleIds e' = []" by auto
      with fin have "pending s' = AList.delete k (pending (snd acc))" and ds: "disk s' = d2" by simp_all
      with a1' have pd: "pending s' = AList.delete k (pending s)" by (simp add: delete_update_same)
      have fr: "node_at (disk s') [m] = node_at (disk s) [m]" if "m \<noteq> k" "endswith m postfix" for m
      proof -
        from that nN have mN: "m \<noteq> N" by auto
        from write_json_frame [OF wr mN] move_frame2 [OF mv that(1) mN] f1 that(1) ds
        show ?thesis by simp
      qed
      from pd fr show ?thesis by blast
    qed
    from lg main show ?thesis by blast
  qed
qed

lemma push_ruleset_effect:
  assumes run: "push_ruleset remote postfix k s = Inr s'"
  shows "\<exists>new. log s' = log s @ new
           \<and> (list_all (clean_call postfix) new \<longrightarrow>
                (\<forall>e. map_of (pending s) k = Some e \<longrightarrow> endswith k postfix \<longrightarrow>
                      listed_in_ruleset_json (disk s) k e) \<longrightarrow>
                pending s' = AList.delete k (pending s)
                \<and> (\<forall>m. m \<noteq> k \<longrightarrow> endswith m postfix \<longrightarrow>
                      node_at (disk s') [m] = node_at (disk s) [m]))"
proof -
  from run obtain e where e: "map_of (pending s) k = Some e"
    by (auto simp: push_ruleset_def split: option.splits)
  show ?thesis
  proof (cases "modified e = RsDel")
    case True
    with run e have pp: "put_or_post remote (DeleteRuleset k) s
              (\<lambda>s1. Inr (s1\<lparr>pending := AList.delete k (pending s1)\<rparr>)) = Inr s'"
      by (simp add: push_ruleset_def)
    from put_or_post_effect [OF pp] show ?thesis
    proof
      assume "s' = s\<lparr>log := log s @ [(DeleteRuleset k, RaiseURLError)]\<rparr>
                \<and> remote (log s) (DeleteRuleset k) = RaiseURLError"
      then have "log s' = log s @ [(DeleteRuleset k, RaiseURLError)]" by simp
      then show ?thesis by (auto simp: clean_call_def call_succeeded_def)
    next
      assume "remote (log s) (DeleteRuleset k) \<noteq> RaiseURLError
            \<and> remote (log s) (DeleteRuleset k) \<noteq> RaiseKeyboardInterrupt
            \<and> Inr ((s\<lparr>log := log s @ [(DeleteRuleset k, remote (log s) (DeleteRuleset k))]\<rparr>)
                      \<lparr>pending := AList.delete k
                         (pending (s\<lparr>log := log s @ [(DeleteRuleset k, remote (log s) (DeleteRuleset k))]\<rparr>))\<rparr>)
                = (Inr s' :: error + run)"
      then have "log s' = log s @ [(DeleteRuleset k, remote (log s) (DeleteRuleset k))]"
        and "pending s' = AList.delete k (pending s)" and "disk s' = disk s" by auto
      then show ?thesis by auto
    qed
  next
    case False
    with run e obtain rd where rj: "read_json (disk s) [k, ''ruleset.json''] = Inr (RulesetJson rd)"
      and br: "(if endswith k postfix then push_localonly_ruleset remote k rd s
                else push_existing_ruleset remote postfix k rd s) = Inr s'"
      by (auto simp: push_ruleset_def as_ruleset_def split: sum.splits content.splits)
    show ?thesis
    proof (cases "endswith k postfix")
      case True
      with br have lo: "push_localonly_ruleset remote k rd s = Inr s'" by simp
      from push_localonly_ruleset_effect [OF lo e, of postfix] rj e True
      show ?thesis by (auto simp: listed_in_ruleset_json_def)
    next
      case nl: False
      with br have ex: "push_existing_ruleset remote postfix k rd s = Inr s'" by simp
      from push_existing_ruleset_effect [OF ex e False]
      show ?thesis by blast
    qed
  qed
qed

lemma push_rulesets_effect:
  assumes "for_each (push_ruleset remote postfix) ks s = Inr s'"
  shows "\<exists>new. log s' = log s @ new
           \<and> (list_all (clean_call postfix) new \<longrightarrow>
                (\<forall>k e. map_of (pending s) k = Some e \<longrightarrow> endswith k postfix \<longrightarrow>
                      listed_in_ruleset_json (disk s) k e) \<longrightarrow>
                pending s' = filter (\<lambda>p. fst p \<notin> set ks) (pending s))"
  using assms
proof (induction ks arbitrary: s)
  case Nil
  then show ?case by simp
next
  case (Cons k ks)
  from Cons.prems obtain s1 where 1: "push_ruleset remote postfix k s = Inr s1"
    and 2: "for_each (push_ruleset remote postfix) ks s1 = Inr s'"
    by (auto split: sum.splits)
  from push_ruleset_effect [OF 1] obtain new1 where x1: "log s1 = log s @ new1
           \<and> (list_all (clean_call postfix) new1 \<longrightarrow>
                (\<forall>e. map_of (pending s) k = Some e \<longrightarrow> endswith k postfix \<longrightarrow>
                      listed_in_ruleset_json (disk s) k e) \<longrightarrow>
                pending s1 = AList.delete k (pending s)
                \<and> (\<forall>m. m \<noteq> k \<longrightarrow> endswith m postfix \<longrightarrow>
                      node_at (disk s1) [m] = node_at (disk s) [m]))" ..
  from x1 have l1: "log s1 = log s @ new1" by (rule conjunct1)
  from x1 have p1: "list_all (clean_call postfix) new1 \<longrightarrow>
                (\<forall>e. map_of (pending s) k = Some e \<longrightarrow> endswith k postfix \<longrightarrow>
                      listed_in_ruleset_json (disk s) k e) \<longrightarrow>
                pending s1 = AList.delete k (pending s)
                \<and> (\<forall>m. m \<noteq> k \<longrightarrow> endswith m postfix \<longrightarrow>
                      node_at (disk s1) [m] = node_at (disk s) [m])" by (rule conjunct2)
  from Cons.IH [OF 2] obtain new2 where x2: "log s' = log s1 @ new2
           \<and> (list_all (clean_call postfix) new2 \<longrightarrow>
                (\<forall>k e. map_of (pending s1) k = Some e \<longrightarrow> endswith k postfix \<longrightarrow>
                      listed_in_ruleset_json (disk s1) k e) \<longrightarrow>
                pending s' = filter (\<lambda>p. fst p \<notin> set ks) (pending s1))" ..
  from x2 have l2: "log s' = log s1 @ new2" by (rule conjunct1)
  from x2 have p2: "list_all (clean_call postfix) new2 \<longrightarrow>
                (\<forall>k e. map_of (pending s1) k = Some e \<longrightarrow> endswith k postfix \<longrightarrow>
                      listed_in_ruleset_json (disk s1) k e) \<longrightarrow>
                pending s' = filter (\<lambda>p. fst p \<notin> set ks) (pending s1)" by (rule conjunct2)
  have lg: "log s' = log s @ (new1 @ new2)" using l1 l2 by simp
  have main: "pending s' = filter (\<lambda>p. fst p \<notin> set (k # ks)) (pending s)"
    if ok: "list_all (clean_call postfix) (new1 @ new2)"
      and li: "\<forall>k e. map_of (pending s) k = Some e \<longrightarrow> endswith k postfix \<longrightarrow>
                      listed_in_ruleset_json (disk s) k e"
  proof -
    from ok have ok1: "list_all (clean_call postfix) new1" and ok2: "list_all (clean_call postfix) new2"
      by simp_all
    from li have lik: "\<forall>e. map_of (pending s) k = Some e \<longrightarrow> endswith k postfix \<longrightarrow>
                      listed_in_ruleset_json (disk s) k e" by (rule spec)
    from p1 ok1 lik have c1: "pending s1 = AList.delete k (pending s)
                \<and> (\<forall>m. m \<noteq> k \<longrightarrow> endswith m postfix \<longrightarrow>
                      node_at (disk s1) [m] = node_at (disk s) [m])" by (rule mp [OF mp])
    then have a1: "pending s1 = AList.delete k (pending s)" by (rule conjunct1)
    from c1 have f1: "\<forall>m. m \<noteq> k \<longrightarrow> endswith m postfix \<longrightarrow> node_at (disk s1) [m] = node_at (disk s) [m]"
      by (rule conjunct2)
    have li1: "\<forall>k' e. map_of (pending s1) k' = Some e \<longrightarrow> endswith k' postfix \<longrightarrow>
                      listed_in_ruleset_json (disk s1) k' e"
    proof (intro allI impI)
      fix k' e assume m: "map_of (pending s1) k' = Some e" and lo: "endswith k' postfix"
      from m a1 have ne: "k' \<noteq> k" by (auto simp: delete_conv')
      with m a1 have "map_of (pending s) k' = Some e" by (simp add: delete_conv')
      with li lo have l0: "listed_in_ruleset_json (disk s) k' e" by blast
      from f1 ne lo have "node_at (disk s1) [k'] = node_at (disk s) [k']" by blast
      then have "read_json (disk s1) [k', ''ruleset.json''] = read_json (disk s) [k', ''ruleset.json'']"
        by (rule read_json_cong)
      with l0 show "listed_in_ruleset_json (disk s1) k' e"
        by (simp add: listed_in_ruleset_json_def)
    qed
    from p2 ok2 li1 have "pending s' = filter (\<lambda>p. fst p \<notin> set ks) (pending s1)" by (rule mp [OF mp])
    with a1 show ?thesis by (simp add: delete_as_filter conj_commute)
  qed
  from lg main show ?case by blast
qed

text \<open>
  C1, as amended. When a \<^verbatim>\<open>push\<close> completes, every remote call it made succeeded and assigned no
  identifier carrying the local-only postfix, and before it every rule tracked under a local-only
  ruleset of the organization was listed in that ruleset's \<^verbatim>\<open>ruleset.json\<close>, then the
  organization is absent from the state file it wrote, and a second \<^verbatim>\<open>push\<close> (against any
  remote) returns the world unchanged: it makes no remote call at all.
\<close>

theorem push_idempotent:
  assumes run: "push remote org_id postfix w = Inr w1"
    and ok: "list_all (clean_call postfix) (drop (length (api_log w)) (api_log w1))"
    and li: "localonly_rules_listed org_id postfix w"
  shows "map_of (organizations (state_file w1)) org_id = None
       \<and> push remote' org_id postfix w1 = Inr w1"
proof -
  have absent: "map_of (organizations (state_file w1)) org_id = None"
  proof (cases "map_of (organizations (state_file w)) org_id")
    case None
    with run show ?thesis by (simp add: push_def)
  next
    case (Some oe)
    let ?s = "\<lparr>pending = oe, disk = org_dir w, log = api_log w\<rparr>"
    from run Some obtain s' where loop: "for_each (push_ruleset remote postfix) (map fst oe) ?s = Inr s'"
      and w1: "w1 = \<lparr>state_file = (if pending s' = [] then pop_org org_id (state_file w)
                          else set_org org_id (pending s') (state_file w)),
                       org_dir = disk s', api_log = log s'\<rparr>"
      by (auto simp: push_def Let_def split: sum.splits)
    from push_rulesets_effect [OF loop] obtain new where lg: "log s' = log ?s @ new"
      and p: "list_all (clean_call postfix) new \<longrightarrow>
                (\<forall>k e. map_of (pending ?s) k = Some e \<longrightarrow> endswith k postfix \<longrightarrow>
                      listed_in_ruleset_json (disk ?s) k e) \<longrightarrow>
                pending s' = filter (\<lambda>p. fst p \<notin> set (map fst oe)) (pending ?s)" by blast
    from ok w1 lg have okn: "list_all (clean_call postfix) new" by simp
    have lis: "\<forall>k e. map_of (pending ?s) k = Some e \<longrightarrow> endswith k postfix \<longrightarrow>
                      listed_in_ruleset_json (disk ?s) k e"
    proof (intro allI impI)
      fix k e assume "map_of (pending ?s) k = Some e" and lo: "endswith k postfix"
      then have "(k, e) \<in> set oe" by (auto dest: map_of_SomeD)
      with li Some lo show "listed_in_ruleset_json (disk ?s) k e"
        by (auto simp: localonly_rules_listed_def list_all_iff)
    qed
    from p okn lis have "pending s' = filter (\<lambda>p. fst p \<notin> set (map fst oe)) oe" by simp
    then have "pending s' = []" by (simp only: filter_all_keys)
    with w1 show ?thesis by (simp add: pop_org_def delete_conv')
  qed
  then show ?thesis by (simp add: push_def)
qed

theorem push_idempotent_witness:
  "push remote_ok ''org1'' ''-localonly'' world1 = Inr world1_pushed
   \<and> list_all (clean_call ''-localonly'') (drop (length (api_log world1)) (api_log world1_pushed))
   \<and> localonly_rules_listed ''org1'' ''-localonly'' world1
   \<and> map_of (organizations (state_file world1_pushed)) ''org1'' = None
   \<and> push remote_ok ''org1'' ''-localonly'' world1_pushed = Inr world1_pushed"
proof -
  have r: "push remote_ok ''org1'' ''-localonly'' world1 = Inr world1_pushed" by code_simp
  have c: "list_all (clean_call ''-localonly'')
             (drop (length (api_log world1)) (api_log world1_pushed))" by code_simp
  have l: "localonly_rules_listed ''org1'' ''-localonly'' world1" by code_simp
  from push_idempotent [OF r c l, of remote_ok] r c l show ?thesis by blast
qed


section \<open>push: the renaming of a local-only ruleset and its rule\<close>

subsection \<open>What one turn of a loop leaves alone\<close>




















subsection \<open>The turn of the rule and the turn of the ruleset\<close>


lemma post_new_rule_log:
  assumes "post_new_rule remote k target r acc = Inr acc2"
    and "read_json (disk (snd acc)) [k, r, ''rule.json''] = Inr rule_data"
    and "remote (log (snd acc)) (PostRule target rule_data) = RespId M"
  shows "\<exists>rest. log (snd acc2) = log (snd acc) @ (PostRule target rule_data, RespId M) # rest"
  using assms
  by (auto simp: post_new_rule_def request_def Let_def split: sum.splits if_splits)
















subsection \<open>The claim\<close>

text \<open>
  C4, as stated, fails when \<^verbatim>\<open>push\<close> raises after the three POSTs. On \<open>world5\<close> the turn of the
  local-only ruleset \<open>x1-localonly\<close> completes: the ruleset, its rule \<open>u1-localonly\<close> and the
  tags of the rule are posted, every call succeeds, and the directories are renamed to \<open>N1\<close> and
  \<open>N1/R1\<close>. The turn of the next ruleset \<open>N9\<close> then reads \<^verbatim>\<open>N9/u9-localonly/tags.json\<close>, which
  does not exist, and \<^verbatim>\<open>push\<close> raises \<^verbatim>\<open>FileNotFoundError\<close> before it writes the state file: the
  state file still tracks the ruleset under \<open>x1-localonly\<close> and the rule under \<open>u1-localonly\<close>.
\<close>

theorem push_raises_after_renaming:
  "push remote_ok ''org1'' ''-localonly'' world5 = Inl FileNotFoundError
   \<and> push_ruleset remote_ok ''-localonly'' ''x1-localonly'' run5 = Inr run5_renamed
   \<and> list_all call_succeeded (log run5_renamed)
   \<and> node_at (disk run5_renamed) [''x1-localonly''] = None
   \<and> isdir (disk run5_renamed) [''N1'', ''R1'']
   \<and> push_ruleset remote_ok ''-localonly'' ''N9'' run5_renamed = Inl FileNotFoundError
   \<and> tracked_ruleset (state_file_after world5 (push remote_ok ''org1'' ''-localonly'' world5))
        ''org1'' ''x1-localonly''
       = Some \<lparr>modified = RsTrue, ruleIds = [(''u1-localonly'', Both)]\<rparr>
   \<and> tracked_rule (state_file_after world5 (push remote_ok ''org1'' ''-localonly'' world5))
        ''org1'' ''x1-localonly'' ''u1-localonly'' = Some Both"
  by code_simp



end
